theory Spec2Isabelle
  imports Main "HOL-Library.Word"
begin

section \<open>The geometry model\<close>

text \<open>
  The classes that \<^verbatim>\<open>GeometryReader::read_geom\<close> fills in. Vertices and triangles are
  handled by the mesh loaders only; a mesh is represented here by its name and the file
  it was loaded from. An oriented mesh refers to a mesh of the geometry; the reference
  is the position of the mesh in \<^verbatim>\<open>geom.meshes_\<close>. The members \<^verbatim>\<open>meshes_\<close>,
  \<^verbatim>\<open>domains_\<close> and \<^verbatim>\<open>is_nested_\<close> of the geometry are the fields \<open>geom_meshes\<close>,
  \<open>geom_domains\<close> and \<open>geom_is_nested\<close>.
\<close>

datatype VersionId = VERSION10 | VERSION11

record Mesh =
  mesh_name :: string
  mesh_file :: string

type_synonym OrientedMesh = "nat \<times> bool"

record Interface =
  interface_name :: string
  oriented_meshes :: "OrientedMesh list"
  interface_outermost :: bool

type_synonym HalfSpace = "Interface \<times> bool"

record Domain =
  domain_name :: string
  halfspaces :: "HalfSpace list"
  outermost :: bool

record Geometry =
  version_id :: VersionId
  geom_meshes :: "Mesh list"
  geom_domains :: "Domain list"
  geom_is_nested :: bool

definition mesh :: "OrientedMesh \<Rightarrow> nat" where
  "mesh om = fst om"

text \<open>
  Modelled from the spec: \<^verbatim>\<open>OrientedMesh::orientation()\<close> (interface.h is not among the
  sources). The flag is stored as a boolean; read as a number it is +1 for a mesh used
  as loaded and -1 for a flipped one, which is what the comment above the nested test
  of the source relies on ("a same mesh oriented once correctly once wrongly").
\<close>

definition orientation :: "OrientedMesh \<Rightarrow> int" where
  "orientation om = (if snd om then 1 else - 1)"

definition inside :: "HalfSpace \<Rightarrow> bool" where
  "inside hit = snd hit"

definition interface :: "HalfSpace \<Rightarrow> Interface" where
  "interface hit = fst hit"

text \<open>
  Modelled from the spec: \<^verbatim>\<open>Interface::set_to_outermost()\<close> (interface.h is not among
  the sources) raises the interface's own flag.
\<close>

definition set_to_outermost :: "Interface \<Rightarrow> Interface" where
  "set_to_outermost i = i\<lparr>interface_outermost := True\<rparr>"

text \<open>
  Modelled from the spec: the default constructors \<^verbatim>\<open>Interface(name)\<close> and \<^verbatim>\<open>Domain()\<close>
  (interface.h and domain.h are not among the sources): no member, flag down.
\<close>

definition Interface_named :: "string \<Rightarrow> Interface" where
  "Interface_named n = \<lparr>interface_name = n, oriented_meshes = [], interface_outermost = False\<rparr>"

definition Domain_default :: Domain where
  "Domain_default = \<lparr>domain_name = [], halfspaces = [], outermost = False\<rparr>"

text \<open>\<^verbatim>\<open>std::vector::resize\<close>: keeps the first elements, appends default ones.\<close>

definition resize :: "nat \<Rightarrow> 'a \<Rightarrow> 'a list \<Rightarrow> 'a list" where
  "resize n dflt xs = take n xs @ replicate (n - length xs) dflt"

section \<open>Errors, diagnostics and outcomes\<close>

datatype exn =
    OpenError string
  | WrongFileFormat string
  | NonExistingDomain string string
  | UnknownMeshReference string

text \<open>What the function writes to \<^verbatim>\<open>std::cerr\<close>, one constructor per message.\<close>

datatype notice =
    VersionNotAvailable
  | DeprecatedGeometryFile string
  | SharedIsUseless string
  | InterfaceNotClosed string

section \<open>The input stream\<close>

text \<open>
  A \<^verbatim>\<open>std::istream\<close> is the characters still to be read and its fail bit. Once the
  fail bit is set nothing clears it in this function, and every later extraction leaves
  the stream and its target variable as they are.
\<close>

record istream =
  buf :: string
  failbit :: bool

definition isspace :: "char \<Rightarrow> bool" where
  "isspace c \<longleftrightarrow> c \<in> set [CHR '' '', CHR 0x09, CHR 0x0A, CHR 0x0B, CHR 0x0C, CHR 0x0D]"

definition isdigit :: "char \<Rightarrow> bool" where
  "isdigit c \<longleftrightarrow> c \<in> set ''0123456789''"

definition ws :: "string \<Rightarrow> string" where
  "ws cs = dropWhile isspace cs"

definition setfail :: "istream \<Rightarrow> istream" where
  "setfail s = s\<lparr>failbit := True\<rparr>"

definition starts_with :: "string \<Rightarrow> string \<Rightarrow> bool" where
  "starts_with lit cs \<longleftrightarrow> take (length lit) cs = lit"

text \<open>\<^verbatim>\<open>is >> std::string\<close>: skip white space, read up to the next white space.\<close>

definition get_string :: "string \<Rightarrow> istream \<Rightarrow> string \<times> istream" where
  "get_string old s =
     (if failbit s then (old, s)
      else let r = ws (buf s) in
        if r = [] then (old, setfail (s\<lparr>buf := r\<rparr>))
        else (takeWhile (\<lambda>c. \<not> isspace c) r, s\<lparr>buf := dropWhile (\<lambda>c. \<not> isspace c) r\<rparr>))"

text \<open>
  \<^verbatim>\<open>is >> unsigned\<close>: skip white space, an optional sign, decimal digits. Without a
  digit the value is 0 and the fail bit is set; a value that does not fit is the
  largest one, with the fail bit; a minus sign negates modulo \<open>2^32\<close>.
\<close>

definition digit_val :: "char \<Rightarrow> int" where
  "digit_val c = of_char c - of_char CHR ''0''"

definition decimal :: "string \<Rightarrow> int" where
  "decimal ds = foldl (\<lambda>n c. 10 * n + digit_val c) 0 ds"

definition get_unsigned :: "32 word \<Rightarrow> istream \<Rightarrow> 32 word \<times> istream" where
  "get_unsigned old s =
     (if failbit s then (old, s)
      else let r = ws (buf s) in
        if r = [] then (old, setfail (s\<lparr>buf := r\<rparr>))
        else let neg = (hd r = CHR ''-'');
                 r1 = (if hd r = CHR ''-'' \<or> hd r = CHR ''+'' then tl r else r);
                 ds = takeWhile isdigit r1;
                 rest = dropWhile isdigit r1
             in if ds = [] then (0, setfail (s\<lparr>buf := rest\<rparr>))
                else if decimal ds > 4294967295 then (- 1, setfail (s\<lparr>buf := rest\<rparr>))
                else ((if neg then - word_of_int (decimal ds) else word_of_int (decimal ds)),
                      s\<lparr>buf := rest\<rparr>))"

text \<open>\<^verbatim>\<open>std::getline\<close>: the characters up to the next newline, which is dropped.\<close>

definition getline :: "string \<Rightarrow> istream \<Rightarrow> string \<times> istream" where
  "getline old s =
     (if failbit s then (old, s)
      else if buf s = [] then ([], setfail s)
      else (takeWhile (\<lambda>c. c \<noteq> CHR 0x0A) (buf s),
            s\<lparr>buf := drop 1 (dropWhile (\<lambda>c. c \<noteq> CHR 0x0A) (buf s))\<rparr>))"

text \<open>\<^verbatim>\<open>is.peek()\<close>: the next character, none at the end or on a failed stream.\<close>

definition peek :: "istream \<Rightarrow> char option" where
  "peek s = (if failbit s then None else case buf s of [] \<Rightarrow> None | c # _ \<Rightarrow> Some c)"

text \<open>
  The loop \<^verbatim>\<open>while (iss >> id)\<close> over a line: the body sees the white-space separated
  words of the line, in order.
\<close>

function words :: "string \<Rightarrow> string list" where
  "words cs =
     (let r = ws cs in
      if r = [] then []
      else takeWhile (\<lambda>c. \<not> isspace c) r # words (dropWhile (\<lambda>c. \<not> isspace c) r))"
  by pat_completeness auto
termination
proof (relation "measure length")
  fix cs r :: string
  assume r: "r = ws cs" and ne: "r \<noteq> []"
  have "\<not> isspace (hd r)"
    using r ne unfolding ws_def by (metis hd_dropWhile)
  then have "length (dropWhile (\<lambda>c. \<not> isspace c) r) < length r"
    using ne by (cases r) (auto intro: le_imp_less_Suc length_dropWhile_le)
  moreover have "length r \<le> length cs"
    using r unfolding ws_def by (simp add: length_dropWhile_le)
  ultimately show "(dropWhile (\<lambda>c. \<not> isspace c) r, cs) \<in> measure length"
    by simp
qed simp

declare words.simps [simp del]

subsection \<open>The scanner of IOUtils.H\<close>

text \<open>
  Modelled from the spec: the manipulators of \<^verbatim>\<open>io_utils\<close> (IOUtils.H is not among the
  sources), section 4.1 of the description. Each one skips leading white space.
  \<^item> \<open>skip_comments\<close> skips whole lines that begin with the marker;
  \<^item> \<open>match\<close> consumes the literal, and sets the fail bit if it is absent;
  \<^item> \<open>match_optional\<close> consumes the literal if it is there and tells whether it was;
  \<^item> \<open>match_alternative\<close> consumes the first literal of the list that is there and
    gives its index, -1 when none is (the stream is then left alone: the section it
    introduces is optional);
  \<^item> \<open>token\<close> reads up to the delimiter, which it consumes;
  \<^item> \<open>filename\<close> reads a path between quotes, or a bare word.
\<close>

function skip_lines :: "string \<Rightarrow> string \<Rightarrow> string" where
  "skip_lines marker cs =
     (let r = ws cs in
      if r \<noteq> [] \<and> starts_with marker r
      then skip_lines marker (dropWhile (\<lambda>c. c \<noteq> CHR 0x0A) r)
      else r)"
  by pat_completeness auto
termination
proof (relation "measure (\<lambda>(marker, cs). length cs)")
  fix marker cs r :: string
  assume r: "r = ws cs" and ne: "r \<noteq> [] \<and> starts_with marker r"
  have "\<not> isspace (hd r)"
    using r ne unfolding ws_def by (metis hd_dropWhile)
  then have "hd r \<noteq> CHR 0x0A"
    by (auto simp: isspace_def)
  then have "length (dropWhile (\<lambda>c. c \<noteq> CHR 0x0A) r) < length r"
    using ne by (cases r) (auto intro: le_imp_less_Suc length_dropWhile_le)
  moreover have "length r \<le> length cs"
    using r unfolding ws_def by (simp add: length_dropWhile_le)
  ultimately show "((marker, dropWhile (\<lambda>c. c \<noteq> CHR 0x0A) r), (marker, cs))
      \<in> measure (\<lambda>(marker, cs). length cs)"
    by simp
qed simp

declare skip_lines.simps [simp del]

definition skip_comments :: "string \<Rightarrow> istream \<Rightarrow> istream" where
  "skip_comments marker s = (if failbit s then s else s\<lparr>buf := skip_lines marker (buf s)\<rparr>)"

definition match :: "string \<Rightarrow> istream \<Rightarrow> istream" where
  "match lit s =
     (if failbit s then s
      else let r = ws (buf s) in
        if starts_with lit r then s\<lparr>buf := drop (length lit) r\<rparr>
        else setfail (s\<lparr>buf := r\<rparr>))"

definition match_optional :: "string \<Rightarrow> istream \<Rightarrow> bool \<times> istream" where
  "match_optional lit s =
     (if failbit s then (False, s)
      else let r = ws (buf s) in
        if starts_with lit r then (True, s\<lparr>buf := drop (length lit) r\<rparr>)
        else (False, s\<lparr>buf := r\<rparr>))"

fun first_alternative :: "string list \<Rightarrow> string \<Rightarrow> int \<Rightarrow> int" where
  "first_alternative [] r i = - 1"
| "first_alternative (lit # lits) r i =
     (if starts_with lit r then i else first_alternative lits r (i + 1))"

definition match_alternative :: "string list \<Rightarrow> istream \<Rightarrow> int \<times> istream" where
  "match_alternative lits s =
     (if failbit s then (- 1, s)
      else let r = ws (buf s); i = first_alternative lits r 0 in
        if i < 0 then (i, s\<lparr>buf := r\<rparr>)
        else (i, s\<lparr>buf := drop (length (lits ! nat i)) r\<rparr>))"

definition token :: "char \<Rightarrow> string \<Rightarrow> istream \<Rightarrow> string \<times> istream" where
  "token delim old s =
     (if failbit s then (old, s)
      else let r = ws (buf s) in
        if delim \<in> set r
        then (takeWhile (\<lambda>c. c \<noteq> delim) r, s\<lparr>buf := drop 1 (dropWhile (\<lambda>c. c \<noteq> delim) r)\<rparr>)
        else (r, setfail (s\<lparr>buf := []\<rparr>)))"

definition filename :: "char \<Rightarrow> string \<Rightarrow> istream \<Rightarrow> string \<times> istream" where
  "filename quote old s =
     (if failbit s then (old, s)
      else let r = ws (buf s) in
        if r = [] then (old, setfail (s\<lparr>buf := r\<rparr>))
        else if hd r = quote
        then (if quote \<in> set (tl r)
              then (takeWhile (\<lambda>c. c \<noteq> quote) (tl r),
                    s\<lparr>buf := drop 1 (dropWhile (\<lambda>c. c \<noteq> quote) (tl r))\<rparr>)
              else (tl r, setfail (s\<lparr>buf := []\<rparr>)))
        else (takeWhile (\<lambda>c. \<not> isspace c) r, s\<lparr>buf := dropWhile (\<lambda>c. \<not> isspace c) r\<rparr>))"

section \<open>Helpers of the reader\<close>

text \<open>The branches for systems other than Windows.\<close>

definition is_relative_path :: "string \<Rightarrow> bool" where
  "is_relative_path name = (case name of [] \<Rightarrow> True | c # _ \<Rightarrow> c \<noteq> CHR ''/'')"

definition dir :: "string \<Rightarrow> string" where
  "dir fname = rev (dropWhile (\<lambda>c. c \<noteq> CHR ''/'') (rev fname))"

definition fullname :: "string \<Rightarrow> string \<Rightarrow> string" where
  "fullname fname path = (if is_relative_path fname then path @ fname else fname)"

fun name :: "nat \<Rightarrow> string" where
  "name n = (if n < 10 then [char_of (of_char CHR ''0'' + n)]
             else name (n div 10) @ [char_of (of_char CHR ''0'' + n mod 10)])"

declare name.simps [simp del]

section \<open>The reader\<close>

text \<open>
  What the reader takes from outside: the file system, seen through the mesh loaders,
  and the closure test of an interface.
  \<^item> \<open>geometry_files\<close>: the content of a geometry file, none when it cannot be opened;
  \<^item> \<open>vtp_files\<close>: the names of the surfaces of a VTK/vtp file (\<^verbatim>\<open>Geometry::load_vtp\<close>);
  \<^item> \<open>mesh_files\<close>: the number of vertices of a mesh file (\<^verbatim>\<open>Mesh::load\<close>);
  \<^item> \<open>check\<close>: \<^verbatim>\<open>Interface::check()\<close>, which tells whether the interface is closed and
    may correct its orientation.
  None of these is among the sources; they are parameters of the model.
\<close>

record env =
  geometry_files :: "string \<Rightarrow> string option"
  vtp_files :: "string \<Rightarrow> string list option"
  mesh_files :: "string \<Rightarrow> nat option"
  check :: "Interface \<Rightarrow> bool \<times> Interface"

text \<open>
  The locals of a built-in type that the source declares without an initialiser hold an
  indeterminate value until they are written. Each of them starts from the value given
  here.
\<close>

record uninit =
  init_version0 :: "32 word"
  init_version1 :: "32 word"
  init_nb_meshes :: "32 word"
  init_nb_interfaces :: "32 word"
  init_num_domains :: "32 word"

text \<open>
  The state the function works on: the stream \<^verbatim>\<open>ifs\<close>, the destination \<^verbatim>\<open>geom\<close>,
  what was written to \<^verbatim>\<open>std::cerr\<close> and the local vector \<^verbatim>\<open>interfaces\<close>.
\<close>

record reader =
  ifs :: istream
  geom :: Geometry
  cerr :: "notice list"
  interfaces :: "Interface list"

text \<open>
  A step returns, throws an exception or ends the process with \<^verbatim>\<open>exit\<close>; the state is
  the one reached at that point.
\<close>

datatype 'a result = Returns 'a reader | Throws exn reader | Exits nat reader

definition andthen :: "'a result \<Rightarrow> ('a \<Rightarrow> reader \<Rightarrow> 'b result) \<Rightarrow> 'b result" where
  "andthen m f = (case m of Returns a r \<Rightarrow> f a r | Throws e r \<Rightarrow> Throws e r | Exits n r \<Rightarrow> Exits n r)"

fun for_loop :: "nat list \<Rightarrow> (nat \<Rightarrow> 'a \<Rightarrow> reader \<Rightarrow> 'a result) \<Rightarrow> 'a \<Rightarrow> reader \<Rightarrow> 'a result" where
  "for_loop [] body a r = Returns a r"
| "for_loop (i # js) body a r = andthen (body i a r) (for_loop js body)"

definition final_state :: "'a result \<Rightarrow> reader" where
  "final_state m = (case m of Returns a r \<Rightarrow> r | Throws e r \<Rightarrow> r | Exits n r \<Rightarrow> r)"

definition returns :: "'a result \<Rightarrow> bool" where
  "returns m = (case m of Returns a r \<Rightarrow> True | Throws e r \<Rightarrow> False | Exits n r \<Rightarrow> False)"

subsection \<open>The version of the format (lines 131 to 148)\<close>

text \<open>Line 134: the two numbers of the header and the stream after them.\<close>

definition scan_version :: "uninit \<Rightarrow> istream \<Rightarrow> 32 word \<times> 32 word \<times> istream" where
  "scan_version u s =
     (let s1 = match ''# Domain Description '' s;
          (version0, s2) = get_unsigned (init_version0 u) s1;
          s3 = match ''.'' s2;
          (version1, s4) = get_unsigned (init_version1 u) s3
      in (version0, version1, s4))"

definition read_version :: "uninit \<Rightarrow> string \<Rightarrow> reader \<Rightarrow> unit result" where
  "read_version u geometry r =
     (let (version0, version1, s4) = scan_version u (ifs r);
          r1 = r\<lparr>ifs := s4\<rparr>
      in if failbit s4 then Throws (WrongFileFormat geometry) r1
         else if version0 \<noteq> 1 \<or> version1 > 1
         then Throws (WrongFileFormat geometry) (r1\<lparr>cerr := cerr r1 @ [VersionNotAvailable]\<rparr>)
         else let r2 = r1\<lparr>geom := (geom r1)\<lparr>version_id := (if version1 = 0 then VERSION10 else VERSION11)\<rparr>\<rparr>
              in if version_id (geom r2) = VERSION10
                 then Returns () (r2\<lparr>cerr := cerr r2 @ [DeprecatedGeometryFile geometry]\<rparr>)
                 else Returns () r2)"

subsection \<open>The meshes (lines 154 to 198)\<close>

text \<open>
  Modelled from the spec: \<^verbatim>\<open>Geometry::load_vtp\<close>, \<^verbatim>\<open>Mesh::load\<close> and
  \<^verbatim>\<open>Geometry::import_meshes\<close> (geometry.h and mesh.h are not among the sources). A file
  that cannot be loaded is an error of the loader; the loaded surfaces become the meshes
  of the geometry.
\<close>

definition load_vtp :: "env \<Rightarrow> string \<Rightarrow> reader \<Rightarrow> unit result" where
  "load_vtp env file r =
     (case vtp_files env file of
        None \<Rightarrow> Throws (OpenError file) r
      | Some names \<Rightarrow>
          Returns () (r\<lparr>geom := (geom r)\<lparr>geom_meshes := map (\<lambda>n. \<lparr>mesh_name = n, mesh_file = file\<rparr>) names\<rparr>\<rparr>))"

definition import_meshes :: "Mesh list \<Rightarrow> reader \<Rightarrow> reader" where
  "import_meshes meshes r = r\<lparr>geom := (geom r)\<lparr>geom_meshes := meshes\<rparr>\<rparr>"

definition nb_meshes :: "Geometry \<Rightarrow> nat" where
  "nb_meshes g = length (geom_meshes g)"

definition Mesh_default :: Mesh where
  "Mesh_default = \<lparr>mesh_name = [], mesh_file = []\<rparr>"

text \<open>The body of the loop over the entries of the form \<^verbatim>\<open>Meshes\<close> (lines 176 to 190).\<close>

definition read_mesh_entry :: "env \<Rightarrow> string \<Rightarrow> nat \<Rightarrow> Mesh list \<Rightarrow> reader \<Rightarrow> Mesh list result" where
  "read_mesh_entry env path i meshes r =
     (let s1 = match ''Mesh'' (skip_comments ''#'' (ifs r));
          (meshname, s2) = (if peek s1 = Some CHR '':'' then (name (i + 1), s1)
                            else token CHR '':'' [] s1);
          (fname, s3) = filename CHR 0x22 [] s2;
          file = fullname fname path;
          r1 = r\<lparr>ifs := s3\<rparr>
      in case mesh_files env file of
           None \<Rightarrow> Throws (OpenError file) r1
         | Some nv \<Rightarrow> Returns (meshes[i := \<lparr>mesh_name = meshname, mesh_file = file\<rparr>]) r1)"

text \<open>\<^verbatim>\<open>case 1\<close> of the switch (lines 171 to 196).\<close>

definition case_Meshes :: "env \<Rightarrow> uninit \<Rightarrow> string \<Rightarrow> reader \<Rightarrow> unit result" where
  "case_Meshes env u path r =
     (let (nb, s1) = get_unsigned (init_nb_meshes u) (ifs r) in
      andthen (for_loop [0..<unat nb] (read_mesh_entry env path)
                 (replicate (unat nb) Mesh_default) (r\<lparr>ifs := s1\<rparr>))
        (\<lambda>meshes r1. Returns () (import_meshes meshes r1)))"

text \<open>
  \<^verbatim>\<open>case 0\<close> of the switch (lines 166 to 170). The block does not end with a
  \<^verbatim>\<open>break\<close>: control goes on into \<^verbatim>\<open>case 1\<close>.
\<close>

definition case_MeshFile :: "env \<Rightarrow> uninit \<Rightarrow> string \<Rightarrow> reader \<Rightarrow> unit result" where
  "case_MeshFile env u path r =
     (let (fname, s1) = filename CHR 0x22 [] (skip_comments ''#'' (ifs r)) in
      andthen (load_vtp env (fullname fname path) (r\<lparr>ifs := s1\<rparr>))
        (\<lambda>_ r1. case_Meshes env u path r1))"

definition process_meshes :: "env \<Rightarrow> uninit \<Rightarrow> string \<Rightarrow> reader \<Rightarrow> unit result" where
  "process_meshes env u path r =
     (if version_id (geom r) = VERSION11
      then let (index, s1) = match_alternative [''MeshFile'', ''Meshes''] (skip_comments ''#'' (ifs r));
               r1 = r\<lparr>ifs := s1\<rparr>
           in if index = 0 then case_MeshFile env u path r1
              else if index = 1 then case_Meshes env u path r1
              else Returns () r1
      else Returns () r)"

subsection \<open>The interfaces (lines 200 to 282)\<close>

text \<open>
  Modelled from the spec: \<^verbatim>\<open>Geometry::mesh(id)\<close> (geometry.h is not among the sources)
  finds the mesh of that name; an unknown name is a fatal lookup error.
\<close>

fun mesh_position :: "string \<Rightarrow> Mesh list \<Rightarrow> nat \<Rightarrow> nat option" where
  "mesh_position ident [] j = None"
| "mesh_position ident (m # ms) j =
     (if mesh_name m = ident then Some j else mesh_position ident ms (j + 1))"

definition geom_mesh :: "Geometry \<Rightarrow> string \<Rightarrow> nat option" where
  "geom_mesh g ident = mesh_position ident (geom_meshes g) 0"

text \<open>The sign of an id of an interface line (lines 274 to 278).\<close>

definition interface_id_sign :: "string \<Rightarrow> bool \<times> string" where
  "interface_id_sign ident =
     (case ident of
        [] \<Rightarrow> (True, ident)
      | c # cs \<Rightarrow> if c = CHR ''-'' \<or> c = CHR ''+'' then (c = CHR ''+'', cs) else (True, ident))"

text \<open>
  The loop \<^verbatim>\<open>while (iss >> id)\<close> of an interface line (lines 273 to 280), on the
  interface at position \<open>i\<close> of \<^verbatim>\<open>interfaces\<close>.
\<close>

definition push_back_mesh :: "nat \<Rightarrow> OrientedMesh \<Rightarrow> reader \<Rightarrow> reader" where
  "push_back_mesh i om r =
     r\<lparr>interfaces := (interfaces r)
          [i := (interfaces r ! i)\<lparr>oriented_meshes := oriented_meshes (interfaces r ! i) @ [om]\<rparr>]\<rparr>"

fun interface_ids :: "nat \<Rightarrow> string list \<Rightarrow> reader \<Rightarrow> unit result" where
  "interface_ids i [] r = Returns () r"
| "interface_ids i (ident # ids) r =
     (let (oriented, ident1) = interface_id_sign ident in
      case geom_mesh (geom r) ident1 of
        None \<Rightarrow> Throws (UnknownMeshReference ident1) r
      | Some m \<Rightarrow> interface_ids i ids (push_back_mesh i (m, oriented) r))"

definition words_of :: "istream \<Rightarrow> string list" where
  "words_of iss = (if failbit iss then [] else words (buf iss))"

text \<open>
  When the meshes are already loaded (lines 256 to 281). The local \<^verbatim>\<open>interfacename\<close>
  lives across the iterations; it is the value carried by the loop. First the line and
  the name of the interface (lines 260 to 271): the name, the words that are left on
  the line and the stream after the line.
\<close>

definition scan_interface_line :: "nat \<Rightarrow> string \<Rightarrow> reader \<Rightarrow> string \<times> string list \<times> istream" where
  "scan_interface_line i interfacename r =
     (let (line, s1) = getline [] (skip_comments ''#'' (ifs r));
          (unnamed, iss1) = match_optional ''Interface:'' \<lparr>buf = line, failbit = False\<rparr>;
          (interfacename1, iss2) =
             (if unnamed then (name (i + 1), iss1)
              else token CHR '':'' interfacename (match ''Interface'' iss1))
      in (interfacename1, words_of iss2, s1))"

definition read_interface_line :: "nat \<Rightarrow> string \<Rightarrow> reader \<Rightarrow> string result" where
  "read_interface_line i interfacename r =
     (let (interfacename1, ids, s1) = scan_interface_line i interfacename r;
          r1 = r\<lparr>ifs := s1, interfaces := interfaces r @ [Interface_named interfacename1]\<rparr>
      in andthen (interface_ids i ids r1) (\<lambda>_ r2. Returns interfacename1 r2))"

text \<open>
  When no mesh is loaded yet (lines 222 to 252). The first loop reads the names and the
  files and opens every file once to count its vertices; the count only sizes the
  vertex pool and is not kept here. The second loop loads the meshes.
\<close>

definition read_interface_file ::
    "env \<Rightarrow> string \<Rightarrow> nat \<Rightarrow> string list \<times> string list \<Rightarrow> reader \<Rightarrow> (string list \<times> string list) result" where
  "read_interface_file env path i acc r =
     (let (unnamed, s1) = match_optional ''Interface:'' (skip_comments ''#'' (ifs r));
          (interfacename, s2) =
             (if unnamed \<or> version_id (geom r) = VERSION10 then (name (i + 1), s1)
              else token CHR '':'' [] (match ''Interface'' s1));
          (fname, s3) = filename CHR 0x22 [] s2;
          file = fullname fname path;
          r1 = r\<lparr>ifs := s3\<rparr>
      in case mesh_files env file of
           None \<Rightarrow> Throws (OpenError file) r1
         | Some nv \<Rightarrow> Returns (fst acc @ [interfacename], snd acc @ [file]) r1)"

definition load_interface_mesh ::
    "env \<Rightarrow> string list \<times> string list \<Rightarrow> nat \<Rightarrow> unit \<Rightarrow> reader \<Rightarrow> unit result" where
  "load_interface_mesh env acc i x r =
     (let g1 = (geom r)\<lparr>geom_meshes := geom_meshes (geom r) @ [\<lparr>mesh_name = fst acc ! i, mesh_file = []\<rparr>]\<rparr>;
          r1 = r\<lparr>geom := g1\<rparr>
      in case mesh_files env (snd acc ! i) of
           None \<Rightarrow> Throws (OpenError (snd acc ! i)) r1
         | Some nv \<Rightarrow>
             Returns ()
               (r1\<lparr>geom := g1\<lparr>geom_meshes := (geom_meshes g1)[i := (geom_meshes g1 ! i)\<lparr>mesh_file := snd acc ! i\<rparr>]\<rparr>,
                   interfaces := interfaces r1 @
                     [(Interface_named (fst acc ! i))\<lparr>oriented_meshes := [(i, True)]\<rparr>]\<rparr>))"

text \<open>Lines 202 to 208: the number of interfaces.\<close>

definition interfaces_header :: "uninit \<Rightarrow> string \<Rightarrow> reader \<Rightarrow> 32 word result" where
  "interfaces_header u geometry r =
     (let (nb, s1) = get_unsigned (init_nb_interfaces u)
                       (match ''Interfaces'' (skip_comments ''#'' (ifs r)));
          (trash, s2) = match_optional ''Mesh'' s1;
          r1 = r\<lparr>ifs := s2\<rparr>
      in if failbit s2 then Throws (WrongFileFormat geometry) r1 else Returns nb r1)"

definition process_interfaces :: "env \<Rightarrow> uninit \<Rightarrow> string \<Rightarrow> string \<Rightarrow> reader \<Rightarrow> unit result" where
  "process_interfaces env u geometry path r =
     andthen (interfaces_header u geometry r)
       (\<lambda>nb r1.
          if nb_meshes (geom r1) = 0
          then andthen (for_loop [0..<unat nb] (read_interface_file env path) ([], []) r1)
                 (\<lambda>acc r2. for_loop [0..<unat nb] (load_interface_mesh env acc) () r2)
          else andthen (for_loop [0..<unat nb] read_interface_line [] r1)
                 (\<lambda>_ r2. Returns () r2))"

subsection \<open>The domains (lines 284 to 328)\<close>

definition push_back_halfspace :: "nat \<Rightarrow> HalfSpace \<Rightarrow> reader \<Rightarrow> reader" where
  "push_back_halfspace k hs r =
     r\<lparr>geom := (geom r)\<lparr>geom_domains := (geom_domains (geom r))
          [k := (geom_domains (geom r) ! k)\<lparr>halfspaces := halfspaces (geom_domains (geom r) ! k) @ [hs]\<rparr>]\<rparr>\<rparr>"

text \<open>
  The loop over \<^verbatim>\<open>interfaces\<close> for one id of the domain at position \<open>k\<close> (lines 313 to
  324): the interfaces already visited, those still to visit, and \<^verbatim>\<open>found\<close>. The
  closure test may change the interface it is called on.
\<close>

fun match_interfaces ::
    "env \<Rightarrow> nat \<Rightarrow> string \<Rightarrow> bool \<Rightarrow> Interface list \<Rightarrow> Interface list \<Rightarrow> bool \<Rightarrow> reader \<Rightarrow> bool result" where
  "match_interfaces env k ident ins visited [] found r = Returns found (r\<lparr>interfaces := visited\<rparr>)"
| "match_interfaces env k ident ins visited (iit # rest) found r =
     (if interface_name iit = ident
      then (let (closed, iit1) = check env iit in
            if \<not> closed
            then Exits 1 (r\<lparr>interfaces := visited @ iit1 # rest,
                             cerr := cerr r @ [InterfaceNotClosed (interface_name iit1)]\<rparr>)
            else match_interfaces env k ident ins (visited @ [iit1]) rest True
                   (push_back_halfspace k (iit1, ins) r))
      else match_interfaces env k ident ins (visited @ [iit]) rest found r)"

text \<open>Lines 304 to 326 for an id whose sign has been read.\<close>

definition lookup_interface :: "env \<Rightarrow> nat \<Rightarrow> string \<Rightarrow> bool \<Rightarrow> reader \<Rightarrow> unit result" where
  "lookup_interface env k ident ins r =
     andthen (match_interfaces env k ident ins [] (interfaces r) False r)
       (\<lambda>found r1. if \<not> found
                    then Throws (NonExistingDomain (domain_name (geom_domains (geom r1) ! k)) ident) r1
                    else Returns () r1)"

text \<open>
  The loop \<^verbatim>\<open>while (iss >> id)\<close> of a domain line (lines 303 to 327); the word
  \<^verbatim>\<open>shared\<close> leaves the loop.
\<close>

fun domain_ids :: "env \<Rightarrow> string \<Rightarrow> nat \<Rightarrow> string list \<Rightarrow> reader \<Rightarrow> unit result" where
  "domain_ids env geometry k [] r = Returns () r"
| "domain_ids env geometry k (ident # ids) r =
     (if ident \<noteq> [] \<and> (hd ident = CHR ''-'' \<or> hd ident = CHR ''+'')
      then andthen (lookup_interface env k (tl ident) (hd ident = CHR ''-'') r)
             (\<lambda>_ r1. domain_ids env geometry k ids r1)
      else if ident = ''shared''
      then Returns () (r\<lparr>cerr := cerr r @ [SharedIsUseless geometry]\<rparr>)
      else andthen (lookup_interface env k ident False r)
             (\<lambda>_ r1. domain_ids env geometry k ids r1))"

definition set_domain_name :: "nat \<Rightarrow> string \<Rightarrow> reader \<Rightarrow> reader" where
  "set_domain_name k n r =
     r\<lparr>geom := (geom r)\<lparr>geom_domains := (geom_domains (geom r))
          [k := (geom_domains (geom r) ! k)\<lparr>domain_name := n\<rparr>]\<rparr>\<rparr>"

text \<open>
  The body of the loop over the domains (lines 294 to 327): first the name of the
  domain and the rest of its line (lines 295 to 301), then the ids.
\<close>

definition scan_domain :: "nat \<Rightarrow> reader \<Rightarrow> string \<times> string \<times> istream" where
  "scan_domain k r =
     (let s1 = match ''Domain'' (skip_comments ''#'' (ifs r));
          (dname, s2) = (if version_id (geom r) = VERSION10
                         then get_string (domain_name (geom_domains (geom r) ! k)) s1
                         else token CHR '':'' (domain_name (geom_domains (geom r) ! k)) s1);
          (line, s3) = getline [] s2
      in (dname, line, s3))"

definition read_domain :: "env \<Rightarrow> string \<Rightarrow> nat \<Rightarrow> unit \<Rightarrow> reader \<Rightarrow> unit result" where
  "read_domain env geometry k x r =
     (let (dname, line, s3) = scan_domain k r
      in domain_ids env geometry k (words line) (set_domain_name k dname (r\<lparr>ifs := s3\<rparr>)))"

text \<open>Lines 286 to 292: the number of domains, and the vector of domains resized.\<close>

definition domains_header :: "uninit \<Rightarrow> string \<Rightarrow> reader \<Rightarrow> unit result" where
  "domains_header u geometry r =
     (let (num_domains, s1) = get_unsigned (init_num_domains u)
                                (match ''Domains'' (skip_comments ''#'' (ifs r)));
          r1 = r\<lparr>ifs := s1\<rparr>
      in if failbit s1 then Throws (WrongFileFormat geometry) r1
         else Returns () (r1\<lparr>geom := (geom r1)\<lparr>geom_domains :=
                resize (unat num_domains) Domain_default (geom_domains (geom r1))\<rparr>\<rparr>))"

definition process_domains :: "env \<Rightarrow> uninit \<Rightarrow> string \<Rightarrow> reader \<Rightarrow> unit result" where
  "process_domains env u geometry r =
     andthen (domains_header u geometry r)
       (\<lambda>_ r2. for_loop [0..<length (geom_domains (geom r2))] (read_domain env geometry) () r2)"

subsection \<open>The outermost domain (lines 330 to 347)\<close>

text \<open>The flag \<^verbatim>\<open>outer\<close> after the loop over the half-spaces of a domain.\<close>

definition outer :: "Domain \<Rightarrow> bool" where
  "outer d = foldl (\<lambda>b hit. b \<and> \<not> inside hit) True (halfspaces d)"

definition mark_outermost :: "Domain \<Rightarrow> Domain" where
  "mark_outermost d =
     d\<lparr>outermost := True,
       halfspaces := map (\<lambda>hit. (set_to_outermost (interface hit), inside hit)) (halfspaces d)\<rparr>"

text \<open>
  A \<^verbatim>\<open>Domains::iterator\<close> is \<open>Some k\<close>, the iterator at the position \<open>k\<close> of
  \<^verbatim>\<open>geom.domains_\<close>, or \<open>None\<close>, the iterator that its default constructor builds: it
  points to no domain and is different from every iterator into the vector. The
  declaration \<^verbatim>\<open>Domains::iterator dit_out;\<close> of line 333 runs the default constructor.

  The loop from the domain at position \<open>k\<close> on; \<open>dit_out\<close> is written only when a
  domain qualifies. The result is \<open>dit_out\<close> after the loop and the domains.
\<close>

fun search_outermost :: "nat option \<Rightarrow> nat \<Rightarrow> Domain list \<Rightarrow> nat option \<times> Domain list" where
  "search_outermost dit_out k [] = (dit_out, [])"
| "search_outermost dit_out k (d # ds) =
     (if outer d then (Some k, mark_outermost d # ds)
      else (fst (search_outermost dit_out (k + 1) ds), d # snd (search_outermost dit_out (k + 1) ds)))"

subsection \<open>Nested or not (lines 349 to 381)\<close>

text \<open>
  \<^verbatim>\<open>out_interface\<close> and \<^verbatim>\<open>m_oriented\<close> are \<^verbatim>\<open>unsigned\<close>: 32 bits, wrapping around.
\<close>

definition out_interface :: "nat option \<Rightarrow> nat \<Rightarrow> Domain \<Rightarrow> 32 word" where
  "out_interface dit_out k d =
     (if Some k \<noteq> dit_out
      then fold (\<lambda>hit n. if \<not> inside hit then n + 1 else n) (halfspaces d) 0
      else 0)"

text \<open>The first loop: whether it leaves with \<^verbatim>\<open>nested = false\<close>.\<close>

fun outside_two :: "nat option \<Rightarrow> nat \<Rightarrow> Domain list \<Rightarrow> bool" where
  "outside_two dit_out k [] = False"
| "outside_two dit_out k (d # ds) =
     (if out_interface dit_out k d \<ge> 2 then True else outside_two dit_out (k + 1) ds)"

text \<open>
  Modelled from the spec: the comparison \<^verbatim>\<open>iit->mesh()==*mit\<close> (mesh.h is not among the
  sources) holds when the oriented mesh refers to that mesh of the geometry.
\<close>

definition m_oriented :: "nat \<Rightarrow> Domain list \<Rightarrow> 32 word" where
  "m_oriented mit ds =
     fold (\<lambda>d. fold (\<lambda>hit. fold (\<lambda>iit m. if mesh iit = mit then m + word_of_int (orientation iit) else m)
                              (oriented_meshes (interface hit)))
                   (halfspaces d))
          ds 0"

text \<open>The second loop, over the meshes of the geometry by position.\<close>

fun unoriented_mesh :: "nat list \<Rightarrow> Domain list \<Rightarrow> bool" where
  "unoriented_mesh [] ds = False"
| "unoriented_mesh (mit # mits) ds =
     (if m_oriented mit ds = 0 then True else unoriented_mesh mits ds)"

definition determine_nested :: "nat option \<Rightarrow> Geometry \<Rightarrow> bool" where
  "determine_nested dit_out g =
     (if outside_two dit_out 0 (geom_domains g) then False
      else if unoriented_mesh [0..<length (geom_meshes g)] (geom_domains g) then False
      else True)"

subsection \<open>The whole function\<close>

text \<open>Lines 330 to 388: the two analysis passes, the last test of the stream.\<close>

definition analyse :: "string \<Rightarrow> reader \<Rightarrow> unit result" where
  "analyse geometry r =
     (let (dit_out, ds) = search_outermost None 0 (geom_domains (geom r));
          g1 = (geom r)\<lparr>geom_domains := ds\<rparr>;
          r1 = r\<lparr>geom := g1\<lparr>geom_is_nested := determine_nested dit_out g1\<rparr>\<rparr>
      in if failbit (ifs r1) then Throws (WrongFileFormat geometry) r1 else Returns () r1)"

definition open_reader :: "Geometry \<Rightarrow> istream \<Rightarrow> reader" where
  "open_reader g s = \<lparr>ifs = s, geom = g, cerr = [], interfaces = []\<rparr>"

definition read_geom :: "env \<Rightarrow> uninit \<Rightarrow> Geometry \<Rightarrow> string \<Rightarrow> unit result" where
  "read_geom env u g geometry =
     (case geometry_files env geometry of
        None \<Rightarrow> Throws (OpenError geometry) (open_reader g \<lparr>buf = [], failbit = True\<rparr>)
      | Some content \<Rightarrow>
          andthen (read_version u geometry (open_reader g \<lparr>buf = content, failbit = False\<rparr>))
            (\<lambda>_ r1. andthen (process_meshes env u (dir geometry) r1)
            (\<lambda>_ r2. andthen (process_interfaces env u geometry (dir geometry) r2)
            (\<lambda>_ r3. andthen (process_domains env u geometry r3)
            (\<lambda>_ r4. analyse geometry r4)))))"

text \<open>
  The function up to line 328: what it returns is the state in which the search for the
  outermost domain starts.
\<close>

definition before_analysis :: "env \<Rightarrow> uninit \<Rightarrow> Geometry \<Rightarrow> string \<Rightarrow> unit result" where
  "before_analysis env u g geometry =
     (case geometry_files env geometry of
        None \<Rightarrow> Throws (OpenError geometry) (open_reader g \<lparr>buf = [], failbit = True\<rparr>)
      | Some content \<Rightarrow>
          andthen (read_version u geometry (open_reader g \<lparr>buf = content, failbit = False\<rparr>))
            (\<lambda>_ r1. andthen (process_meshes env u (dir geometry) r1)
            (\<lambda>_ r2. andthen (process_interfaces env u geometry (dir geometry) r2)
            (\<lambda>_ r3. process_domains env u geometry r3))))"

text \<open>
  The function up to the turn \<open>k\<close> of the loop over the domains: what it returns is the
  state in which the body of the loop starts on the domain at position \<open>k\<close>.
\<close>

definition before_domain :: "env \<Rightarrow> uninit \<Rightarrow> Geometry \<Rightarrow> string \<Rightarrow> nat \<Rightarrow> unit result" where
  "before_domain env u g geometry k =
     (case geometry_files env geometry of
        None \<Rightarrow> Throws (OpenError geometry) (open_reader g \<lparr>buf = [], failbit = True\<rparr>)
      | Some content \<Rightarrow>
          andthen (read_version u geometry (open_reader g \<lparr>buf = content, failbit = False\<rparr>))
            (\<lambda>_ r1. andthen (process_meshes env u (dir geometry) r1)
            (\<lambda>_ r2. andthen (process_interfaces env u geometry (dir geometry) r2)
            (\<lambda>_ r3. andthen (domains_header u geometry r3)
            (\<lambda>_ r4. for_loop [0..<k] (read_domain env geometry) () r4)))))"

text \<open>
  The function up to the turn \<open>i\<close> of the loop over the interface lines (line 257, the
  meshes being loaded): what it returns is the state in which the body of the loop
  starts on the line of the interface at position \<open>i\<close>, with \<^verbatim>\<open>nb_interfaces\<close> and
  \<^verbatim>\<open>interfacename\<close>.
\<close>

definition before_interface ::
    "env \<Rightarrow> uninit \<Rightarrow> Geometry \<Rightarrow> string \<Rightarrow> nat \<Rightarrow> (32 word \<times> string) result" where
  "before_interface env u g geometry i =
     (case geometry_files env geometry of
        None \<Rightarrow> Throws (OpenError geometry) (open_reader g \<lparr>buf = [], failbit = True\<rparr>)
      | Some content \<Rightarrow>
          andthen (read_version u geometry (open_reader g \<lparr>buf = content, failbit = False\<rparr>))
            (\<lambda>_ r1. andthen (process_meshes env u (dir geometry) r1)
            (\<lambda>_ r2. andthen (interfaces_header u geometry r2)
            (\<lambda>nb r3. andthen (for_loop [0..<i] read_interface_line [] r3)
            (\<lambda>interfacename r4. Returns (nb, interfacename) r4)))))"

section \<open>The rules as the description states them\<close>

text \<open>
  The signs: a leading minus, and the id without its sign (one leading plus or minus
  removed).
\<close>

definition leading_minus :: "string \<Rightarrow> bool" where
  "leading_minus ident \<longleftrightarrow> ident \<noteq> [] \<and> hd ident = CHR ''-''"

definition strip_sign :: "string \<Rightarrow> string" where
  "strip_sign ident =
     (if ident \<noteq> [] \<and> (hd ident = CHR ''-'' \<or> hd ident = CHR ''+'') then tl ident else ident)"

text \<open>
  The ids of a domain line, section 4.5 of the description: the word \<^verbatim>\<open>shared\<close> ends
  the list; for every other id all the interfaces are scanned for the name of the id
  without its sign, and each match is checked for closure and appended as a half-space,
  with \<open>inside = true\<close> when the sign is a minus. \<open>referenced\<close> is the half-spaces that
  one id gives, \<open>checked\<close> the interfaces after the closure tests of that id, and
  \<open>domain_halfspaces\<close> the half-spaces that the ids of a line give.
\<close>

definition referenced :: "env \<Rightarrow> string \<Rightarrow> Interface list \<Rightarrow> HalfSpace list" where
  "referenced env ident ifaces =
     map (\<lambda>i. (snd (check env i), leading_minus ident))
         (filter (\<lambda>i. interface_name i = strip_sign ident) ifaces)"

definition checked :: "env \<Rightarrow> string \<Rightarrow> Interface list \<Rightarrow> Interface list" where
  "checked env ident ifaces =
     map (\<lambda>i. if interface_name i = strip_sign ident then snd (check env i) else i) ifaces"

fun domain_halfspaces :: "env \<Rightarrow> string list \<Rightarrow> Interface list \<Rightarrow> HalfSpace list" where
  "domain_halfspaces env [] ifaces = []"
| "domain_halfspaces env (ident # ids) ifaces =
     (if ident = ''shared'' then []
      else referenced env ident ifaces @ domain_halfspaces env ids (checked env ident ifaces))"

text \<open>
  The nested rule: the triples (domain, half-space, member of its interface) of a
  model, the net signed orientation of a mesh over the triples it takes part in, and
  the number of half-spaces of a domain that lie outside.
\<close>

definition triples :: "Domain list \<Rightarrow> (Domain \<times> HalfSpace \<times> OrientedMesh) list" where
  "triples ds =
     concat (map (\<lambda>d. concat (map (\<lambda>hit. map (\<lambda>om. (d, hit, om)) (oriented_meshes (interface hit)))
                                   (halfspaces d))) ds)"

definition net_orientation :: "nat \<Rightarrow> Domain list \<Rightarrow> int" where
  "net_orientation m ds =
     sum_list (map (\<lambda>t. if snd (snd (snd t)) then 1 else - 1)
                   (filter (\<lambda>t. fst (snd (snd t)) = m) (triples ds)))"

text \<open>The net signed orientation of a mesh within one interface.\<close>

definition net_oms :: "nat \<Rightarrow> OrientedMesh list \<Rightarrow> int" where
  "net_oms m oms = sum_list (map (\<lambda>om. if snd om then 1 else - 1) (filter (\<lambda>om. fst om = m) oms))"

definition outside_count :: "Domain \<Rightarrow> nat" where
  "outside_count d = length (filter (\<lambda>hit. \<not> snd hit) (halfspaces d))"

definition nested_rule :: "Geometry \<Rightarrow> bool" where
  "nested_rule g \<longleftrightarrow>
     \<not> list_ex (\<lambda>d. \<not> outermost d \<and> 2 \<le> outside_count d) (geom_domains g) \<and>
     \<not> list_ex (\<lambda>m. net_orientation m (geom_domains g) = 0) [0..<length (geom_meshes g)]"

section \<open>What the sections keep\<close>

text \<open>
  A property of the version tag and of the domains of the destination, and the
  outermost flags of a list of domains; the proofs follow them through the sections.
\<close>

definition frame :: "(VersionId \<Rightarrow> Domain list \<Rightarrow> bool) \<Rightarrow> reader \<Rightarrow> bool" where
  "frame K r = K (version_id (geom r)) (geom_domains (geom r))"

definition flags :: "(bool \<Rightarrow> bool) \<Rightarrow> Domain list \<Rightarrow> bool" where
  "flags F ds \<longleftrightarrow> list_all (\<lambda>d. F (outermost d)) ds"

text \<open>
  What the body of the loop over the domains, on the domain at position \<open>k\<close>, keeps of
  the destination: the version tag, the meshes, the number of domains and every domain
  but the one at position \<open>k\<close>.
\<close>

definition kept :: "nat \<Rightarrow> reader \<Rightarrow> reader \<Rightarrow> bool" where
  "kept k r r' \<longleftrightarrow>
     version_id (geom r') = version_id (geom r) \<and>
     geom_meshes (geom r') = geom_meshes (geom r) \<and>
     length (geom_domains (geom r')) = length (geom_domains (geom r)) \<and>
     (\<forall>j. j \<noteq> k \<longrightarrow> geom_domains (geom r') ! j = geom_domains (geom r) ! j)"

section \<open>Example inputs\<close>

definition unlines :: "string list \<Rightarrow> string" where
  "unlines ls = concat (map (\<lambda>l. l @ [CHR 0x0A]) ls)"

text \<open>
  A head with two nested surfaces, in the format 1.1 with a list of meshes:
  the brain inside the skull, the air outside.
\<close>

definition head_geom :: string where
  "head_geom = unlines
     [''# Domain Description 1.1'',
      ''Meshes 2'',
      ''Mesh Skull: skull.tri'',
      ''Mesh Cortex: cortex.tri'',
      ''Interfaces 2'',
      ''Interface Skull: Skull'',
      ''Interface Cortex: +Cortex'',
      ''Domains 3'',
      ''Domain Brain: -Cortex'',
      ''Domain Bone: -Skull +Cortex'',
      ''Domain Air: +Skull'']"

text \<open>The same meshes given by one VTK/vtp file.\<close>

definition vtp_geom :: string where
  "vtp_geom = unlines
     [''# Domain Description 1.1'',
      ''MeshFile head.vtp'',
      ''Interfaces 2'',
      ''Interface Skull: Skull'',
      ''Interface Cortex: +Cortex'',
      ''Domains 3'',
      ''Domain Brain: -Cortex'',
      ''Domain Bone: -Skull +Cortex'',
      ''Domain Air: +Skull'']"

text \<open>A header of a version that does not exist.\<close>

definition future_geom :: string where
  "future_geom = unlines [''# Domain Description 2.0'', ''Interfaces 0'', ''Domains 0'']"

text \<open>A domain that refers to an interface that was not declared.\<close>

definition ventricle_geom :: string where
  "ventricle_geom = unlines
     [''# Domain Description 1.0'',
      ''Interfaces 1'',
      ''skull.tri'',
      ''Domains 2'',
      ''Domain Brain -1 Ventricle'',
      ''Domain Air 1'']"

text \<open>An interface whose surface is not closed (see \<open>example_env\<close>).\<close>

definition open_geom :: string where
  "open_geom = unlines
     [''# Domain Description 1.0'',
      ''Interfaces 1'',
      ''open.tri'',
      ''Domains 2'',
      ''Domain Brain -1'',
      ''Domain Air 1'']"

text \<open>No domain lies outside all of its interfaces.\<close>

definition no_outermost_geom :: string where
  "no_outermost_geom = unlines
     [''# Domain Description 1.0'',
      ''Interfaces 3'',
      ''a.tri'',
      ''b.tri'',
      ''c.tri'',
      ''Domains 1'',
      ''Domain Shell -1 +2 +3'']"

text \<open>A domain whose only word is \<^verbatim>\<open>shared\<close>.\<close>

definition shared_geom :: string where
  "shared_geom = unlines
     [''# Domain Description 1.0'',
      ''Interfaces 1'',
      ''skull.tri'',
      ''Domains 2'',
      ''Domain Brain -1'',
      ''Domain Air shared'']"

text \<open>A header whose second number is written with a sign.\<close>

definition signed_geom :: string where
  "signed_geom = unlines
     [''# Domain Description 1.-4294967295'',
      ''Interfaces 1'',
      ''Interface Skull: skull.tri'',
      ''Domains 2'',
      ''Domain Brain: -Skull'',
      ''Domain Air: +Skull'']"

definition example_env :: env where
  "example_env =
     \<lparr>geometry_files = (\<lambda>f.
          if f = ''/data/head.geom'' then Some head_geom
          else if f = ''/data/vtp.geom'' then Some vtp_geom
          else if f = ''/data/future.geom'' then Some future_geom
          else if f = ''/data/ventricle.geom'' then Some ventricle_geom
          else if f = ''/data/open.geom'' then Some open_geom
          else if f = ''/data/no_outermost.geom'' then Some no_outermost_geom
          else if f = ''/data/shared.geom'' then Some shared_geom
          else if f = ''/data/signed.geom'' then Some signed_geom
          else None),
      vtp_files = (\<lambda>f. if f = ''/data/head.vtp'' then Some [''Skull'', ''Cortex''] else None),
      mesh_files = (\<lambda>f.
          if f \<in> set [''/data/skull.tri'', ''/data/cortex.tri'', ''/data/open.tri'',
                      ''/data/a.tri'', ''/data/b.tri'', ''/data/c.tri'']
          then Some 42 else None),
      check = (\<lambda>i. (True, i))\<rparr>"

text \<open>The same file system, where no surface is closed.\<close>

definition open_env :: env where
  "open_env = example_env\<lparr>check := (\<lambda>i. (False, i))\<rparr>"

definition example_uninit :: uninit where
  "example_uninit =
     \<lparr>init_version0 = 0, init_version1 = 0, init_nb_meshes = 0, init_nb_interfaces = 0,
      init_num_domains = 0\<rparr>"

definition empty_geometry :: Geometry where
  "empty_geometry = \<lparr>version_id = VERSION10, geom_meshes = [], geom_domains = [], geom_is_nested = False\<rparr>"

text \<open>The model that the reader builds from \<open>head_geom\<close>, and its state at the end.\<close>

definition skull_interface :: Interface where
  "skull_interface = \<lparr>interface_name = ''Skull'', oriented_meshes = [(0, True)], interface_outermost = False\<rparr>"

definition cortex_interface :: Interface where
  "cortex_interface = \<lparr>interface_name = ''Cortex'', oriented_meshes = [(1, True)], interface_outermost = False\<rparr>"

definition head_model :: Geometry where
  "head_model =
     \<lparr>version_id = VERSION11,
      geom_meshes = [\<lparr>mesh_name = ''Skull'', mesh_file = ''/data/skull.tri''\<rparr>,
                     \<lparr>mesh_name = ''Cortex'', mesh_file = ''/data/cortex.tri''\<rparr>],
      geom_domains =
        [\<lparr>domain_name = ''Brain'', halfspaces = [(cortex_interface, True)], outermost = False\<rparr>,
         \<lparr>domain_name = ''Bone'', halfspaces = [(skull_interface, True), (cortex_interface, False)],
            outermost = False\<rparr>,
         \<lparr>domain_name = ''Air'',
            halfspaces = [(skull_interface\<lparr>interface_outermost := True\<rparr>, False)],
            outermost = True\<rparr>],
      geom_is_nested = True\<rparr>"

definition head_reader :: reader where
  "head_reader =
     \<lparr>ifs = \<lparr>buf = [], failbit = False\<rparr>, geom = head_model, cerr = [],
      interfaces = [skull_interface, cortex_interface]\<rparr>"

text \<open>
  States of the reader in the middle of a file: before the ids of a line are read, with
  the two interfaces of the head declared and one domain allocated; and before the
  first domain line of \<open>ventricle_geom\<close>.
\<close>

definition ids_reader :: reader where
  "ids_reader =
     \<lparr>ifs = \<lparr>buf = [], failbit = False\<rparr>,
      geom = \<lparr>version_id = VERSION11,
              geom_meshes = [\<lparr>mesh_name = ''Skull'', mesh_file = ''/data/skull.tri''\<rparr>,
                             \<lparr>mesh_name = ''Cortex'', mesh_file = ''/data/cortex.tri''\<rparr>],
              geom_domains = [Domain_default],
              geom_is_nested = False\<rparr>,
      cerr = [],
      interfaces = [skull_interface, cortex_interface]\<rparr>"

definition domains_reader :: reader where
  "domains_reader =
     \<lparr>ifs = \<lparr>buf = unlines ['''', ''Domain Brain -1 Ventricle'', ''Domain Air 1''], failbit = False\<rparr>,
      geom = \<lparr>version_id = VERSION10,
              geom_meshes = [\<lparr>mesh_name = ''1'', mesh_file = ''/data/skull.tri''\<rparr>],
              geom_domains = [Domain_default, Domain_default],
              geom_is_nested = False\<rparr>,
      cerr = [DeprecatedGeometryFile ''/data/ventricle.geom''],
      interfaces = [\<lparr>interface_name = ''1'', oriented_meshes = [(0, True)], interface_outermost = False\<rparr>]\<rparr>"

text \<open>The same for \<open>open_geom\<close>.\<close>

definition open_domains_reader :: reader where
  "open_domains_reader =
     \<lparr>ifs = \<lparr>buf = unlines ['''', ''Domain Brain -1'', ''Domain Air 1''], failbit = False\<rparr>,
      geom = \<lparr>version_id = VERSION10,
              geom_meshes = [\<lparr>mesh_name = ''1'', mesh_file = ''/data/open.tri''\<rparr>],
              geom_domains = [Domain_default, Domain_default],
              geom_is_nested = False\<rparr>,
      cerr = [DeprecatedGeometryFile ''/data/open.geom''],
      interfaces = [\<lparr>interface_name = ''1'', oriented_meshes = [(0, True)], interface_outermost = False\<rparr>]\<rparr>"

text \<open>The state at the end of \<open>no_outermost_geom\<close>.\<close>

definition no_outermost_reader :: reader where
  "no_outermost_reader =
     \<lparr>ifs = \<lparr>buf = [], failbit = False\<rparr>,
      geom = \<lparr>version_id = VERSION10,
              geom_meshes = [\<lparr>mesh_name = ''1'', mesh_file = ''/data/a.tri''\<rparr>,
                             \<lparr>mesh_name = ''2'', mesh_file = ''/data/b.tri''\<rparr>,
                             \<lparr>mesh_name = ''3'', mesh_file = ''/data/c.tri''\<rparr>],
              geom_domains =
                [\<lparr>domain_name = ''Shell'',
                    halfspaces =
                      [(\<lparr>interface_name = ''1'', oriented_meshes = [(0, True)],
                          interface_outermost = False\<rparr>, True),
                       (\<lparr>interface_name = ''2'', oriented_meshes = [(1, True)],
                          interface_outermost = False\<rparr>, False),
                       (\<lparr>interface_name = ''3'', oriented_meshes = [(2, True)],
                          interface_outermost = False\<rparr>, False)],
                    outermost = False\<rparr>],
              geom_is_nested = False\<rparr>,
      cerr = [DeprecatedGeometryFile ''/data/no_outermost.geom''],
      interfaces =
        [\<lparr>interface_name = ''1'', oriented_meshes = [(0, True)], interface_outermost = False\<rparr>,
         \<lparr>interface_name = ''2'', oriented_meshes = [(1, True)], interface_outermost = False\<rparr>,
         \<lparr>interface_name = ''3'', oriented_meshes = [(2, True)], interface_outermost = False\<rparr>]\<rparr>"

text \<open>
  For \<open>shared_geom\<close>: the state before the line of the second domain, and the state at
  the end.
\<close>

definition shared_domains_reader :: reader where
  "shared_domains_reader =
     \<lparr>ifs = \<lparr>buf = unlines [''Domain Air shared''], failbit = False\<rparr>,
      geom = \<lparr>version_id = VERSION10,
              geom_meshes = [\<lparr>mesh_name = ''1'', mesh_file = ''/data/skull.tri''\<rparr>],
              geom_domains =
                [\<lparr>domain_name = ''Brain'',
                    halfspaces = [(\<lparr>interface_name = ''1'', oriented_meshes = [(0, True)],
                                     interface_outermost = False\<rparr>, True)],
                    outermost = False\<rparr>,
                 Domain_default],
              geom_is_nested = False\<rparr>,
      cerr = [DeprecatedGeometryFile ''/data/shared.geom''],
      interfaces = [\<lparr>interface_name = ''1'', oriented_meshes = [(0, True)], interface_outermost = False\<rparr>]\<rparr>"

definition shared_reader :: reader where
  "shared_reader =
     \<lparr>ifs = \<lparr>buf = [], failbit = False\<rparr>,
      geom = \<lparr>version_id = VERSION10,
              geom_meshes = [\<lparr>mesh_name = ''1'', mesh_file = ''/data/skull.tri''\<rparr>],
              geom_domains =
                [\<lparr>domain_name = ''Brain'',
                    halfspaces = [(\<lparr>interface_name = ''1'', oriented_meshes = [(0, True)],
                                     interface_outermost = False\<rparr>, True)],
                    outermost = False\<rparr>,
                 \<lparr>domain_name = ''Air'', halfspaces = [], outermost = True\<rparr>],
              geom_is_nested = True\<rparr>,
      cerr = [DeprecatedGeometryFile ''/data/shared.geom'', SharedIsUseless ''/data/shared.geom''],
      interfaces = [\<lparr>interface_name = ''1'', oriented_meshes = [(0, True)], interface_outermost = False\<rparr>]\<rparr>"

section \<open>Properties of the reader\<close>

subsection \<open>Outcomes and loops\<close>

lemma final_state_simps [simp]:
  "final_state (Returns a r) = r" "final_state (Throws e r) = r" "final_state (Exits n r) = r"
  by (simp_all add: final_state_def)

lemma returns_simps [simp]:
  "returns (Returns a r)" "\<not> returns (Throws e r)" "\<not> returns (Exits n r)"
  by (simp_all add: returns_def)

lemma andthen_simps [simp]:
  "andthen (Returns a r) f = f a r" "andthen (Throws e r) f = Throws e r"
  "andthen (Exits n r) f = Exits n r"
  by (simp_all add: andthen_def)

lemma andthen_final:
  assumes "P (final_state m)" and "\<And>a r. P r \<Longrightarrow> P (final_state (f a r))"
  shows "P (final_state (andthen m f))"
  using assms by (cases m) simp_all

lemma for_loop_final:
  assumes "\<And>i a r. P r \<Longrightarrow> P (final_state (body i a r))" and "P r"
  shows "P (final_state (for_loop js body a r))"
  using assms(2)
proof (induction js arbitrary: a r)
  case Nil
  then show ?case by simp
next
  case (Cons j js)
  show ?case
    unfolding for_loop.simps
    by (rule andthen_final) (use Cons assms(1) in auto)
qed

lemma andthen_Returns:
  "andthen m f = Returns b r' \<longleftrightarrow> (\<exists>a r. m = Returns a r \<and> f a r = Returns b r')"
  by (cases m) simp_all

subsection \<open>What the sections of the meshes and of the interfaces keep\<close>

lemma frame_ifs [simp]: "frame K (r\<lparr>ifs := s\<rparr>) = frame K r"
  by (simp add: frame_def)

lemma frame_cerr [simp]: "frame K (r\<lparr>cerr := c\<rparr>) = frame K r"
  by (simp add: frame_def)

lemma frame_interfaces [simp]: "frame K (r\<lparr>interfaces := c\<rparr>) = frame K r"
  by (simp add: frame_def)

lemma frame_meshes [simp]: "frame K (r\<lparr>geom := (geom r)\<lparr>geom_meshes := ms\<rparr>\<rparr>) = frame K r"
  by (simp add: frame_def)

lemma andthen_frame:
  assumes "frame K (final_state m)" and "\<And>a r. frame K r \<Longrightarrow> frame K (final_state (f a r))"
  shows "frame K (final_state (andthen m f))"
  using assms by (rule andthen_final)

lemma for_loop_frame:
  assumes "\<And>i a r. frame K r \<Longrightarrow> frame K (final_state (body i a r))" and "frame K r"
  shows "frame K (final_state (for_loop js body a r))"
  using assms by (rule for_loop_final)

lemma load_vtp_frame: "frame K r \<Longrightarrow> frame K (final_state (load_vtp env file r))"
  by (simp add: load_vtp_def split: option.splits)

lemma read_mesh_entry_frame: "frame K r \<Longrightarrow> frame K (final_state (read_mesh_entry env path i ms r))"
  by (simp add: read_mesh_entry_def Let_def split: option.splits prod.splits)

lemma case_Meshes_frame:
  assumes "frame K r"
  shows "frame K (final_state (case_Meshes env u path r))"
proof -
  obtain nb s1 where g: "get_unsigned (init_nb_meshes u) (ifs r) = (nb, s1)"
    by (cases "get_unsigned (init_nb_meshes u) (ifs r)")
  have "frame K (final_state (for_loop [0..<unat nb] (read_mesh_entry env path)
          (replicate (unat nb) Mesh_default) (r\<lparr>ifs := s1\<rparr>)))"
    by (rule for_loop_frame) (simp_all add: read_mesh_entry_frame assms)
  then show ?thesis
    unfolding case_Meshes_def g
    by (simp add: andthen_frame import_meshes_def)
qed

lemma case_MeshFile_frame:
  assumes "frame K r"
  shows "frame K (final_state (case_MeshFile env u path r))"
  unfolding case_MeshFile_def
  by (simp add: andthen_frame load_vtp_frame case_Meshes_frame assms split: prod.splits)

lemma process_meshes_frame:
  assumes "frame K r"
  shows "frame K (final_state (process_meshes env u path r))"
  unfolding process_meshes_def
  by (simp add: Let_def case_MeshFile_frame case_Meshes_frame assms split: prod.splits)

lemma push_back_mesh_frame [simp]: "frame K (push_back_mesh i om r) = frame K r"
  by (simp add: push_back_mesh_def)

lemma interface_ids_frame: "frame K r \<Longrightarrow> frame K (final_state (interface_ids i ids r))"
  by (induction ids arbitrary: r) (auto split: prod.splits option.splits)

lemma read_interface_line_frame:
  assumes "frame K r"
  shows "frame K (final_state (read_interface_line i n r))"
  unfolding read_interface_line_def
  by (simp add: Let_def andthen_frame interface_ids_frame assms split: prod.splits)

lemma interfaces_header_frame:
  "frame K r \<Longrightarrow> frame K (final_state (interfaces_header u geometry r))"
  by (simp add: interfaces_header_def Let_def split: prod.splits)

lemma read_interface_file_frame:
  "frame K r \<Longrightarrow> frame K (final_state (read_interface_file env path i acc r))"
  by (simp add: read_interface_file_def Let_def split: option.splits prod.splits)

lemma load_interface_mesh_frame:
  "frame K r \<Longrightarrow> frame K (final_state (load_interface_mesh env acc i x r))"
  by (simp add: load_interface_mesh_def Let_def frame_def split: option.splits prod.splits)

lemma process_interfaces_frame:
  assumes "frame K r"
  shows "frame K (final_state (process_interfaces env u geometry path r))"
proof -
  have a: "frame K (final_state (andthen (for_loop js (read_interface_file env path) acc0 r1)
              (\<lambda>acc r2. for_loop js (load_interface_mesh env acc) () r2)))"
    if "frame K r1" for js acc0 r1
    by (intro andthen_frame for_loop_frame read_interface_file_frame load_interface_mesh_frame that)
  have b: "frame K (final_state (andthen (for_loop js read_interface_line n0 r1)
              (\<lambda>_ r2. Returns () r2)))"
    if "frame K r1" for js n0 r1
    by (rule andthen_frame, rule for_loop_frame, rule read_interface_line_frame, assumption, rule that)
       (simp add: final_state_def)
  show ?thesis
    unfolding process_interfaces_def
    by (rule andthen_frame) (simp_all add: interfaces_header_frame assms a b)
qed


subsection \<open>What the section of the domains keeps\<close>

lemma flags_update:
  assumes "flags F ds" and "k < length ds \<Longrightarrow> F (outermost d)"
  shows "flags F (ds[k := d])"
proof (cases "k < length ds")
  case True
  then have "set (ds[k := d]) \<subseteq> insert d (set ds)"
    by (simp add: set_update_subset_insert)
  with assms True show ?thesis
    by (auto simp: flags_def list_all_iff)
next
  case False
  with assms show ?thesis by (simp add: list_update_beyond)
qed

lemma flags_nth: "flags F ds \<Longrightarrow> k < length ds \<Longrightarrow> F (outermost (ds ! k))"
  by (simp add: flags_def list_all_length)

lemma flags_resize:
  assumes "flags F ds" and "F False"
  shows "flags F (resize n Domain_default ds)"
proof -
  have "set (take n ds) \<subseteq> set ds" by (rule set_take_subset)
  with assms show ?thesis
    by (auto simp: flags_def resize_def list_all_iff Domain_default_def)
qed

lemma push_back_halfspace_frame:
  "frame (\<lambda>v ds. Q v \<and> flags F ds) r \<Longrightarrow> frame (\<lambda>v ds. Q v \<and> flags F ds) (push_back_halfspace k hs r)"
  by (auto simp: frame_def push_back_halfspace_def intro!: flags_update dest: flags_nth)

lemma set_domain_name_frame:
  "frame (\<lambda>v ds. Q v \<and> flags F ds) r \<Longrightarrow> frame (\<lambda>v ds. Q v \<and> flags F ds) (set_domain_name k n r)"
  by (auto simp: frame_def set_domain_name_def intro!: flags_update dest: flags_nth)

lemma match_interfaces_frame:
  "frame (\<lambda>v ds. Q v \<and> flags F ds) r \<Longrightarrow>
   frame (\<lambda>v ds. Q v \<and> flags F ds) (final_state (match_interfaces env k ident ins visited rest found r))"
proof (induction rest arbitrary: visited found r)
  case Nil
  then show ?case by simp
next
  case (Cons iit rest)
  show ?case
  proof (cases "interface_name iit = ident")
    case True
    obtain closed iit1 where c: "check env iit = (closed, iit1)"
      by (cases "check env iit")
    show ?thesis
      using True c Cons.prems
      by (cases closed) (simp_all add: Cons.IH push_back_halfspace_frame)
  next
    case False
    then show ?thesis using Cons by simp
  qed
qed

lemma lookup_interface_frame:
  assumes "frame (\<lambda>v ds. Q v \<and> flags F ds) r"
  shows "frame (\<lambda>v ds. Q v \<and> flags F ds) (final_state (lookup_interface env k ident ins r))"
  unfolding lookup_interface_def
  by (rule andthen_frame) (simp_all add: match_interfaces_frame assms)

lemma domain_ids_frame:
  "frame (\<lambda>v ds. Q v \<and> flags F ds) r \<Longrightarrow>
   frame (\<lambda>v ds. Q v \<and> flags F ds) (final_state (domain_ids env geometry k ids r))"
proof (induction ids arbitrary: r)
  case Nil
  then show ?case by simp
next
  case (Cons ident ids)
  have step: "frame (\<lambda>v ds. Q v \<and> flags F ds)
      (final_state (andthen (lookup_interface env k n ins r) (\<lambda>_ r1. domain_ids env geometry k ids r1)))"
    for n ins
    by (rule andthen_frame) (simp_all add: lookup_interface_frame Cons)
  show ?case
    using Cons.prems by (simp add: step)
qed

lemma read_domain_frame:
  assumes "frame (\<lambda>v ds. Q v \<and> flags F ds) r"
  shows "frame (\<lambda>v ds. Q v \<and> flags F ds) (final_state (read_domain env geometry k x r))"
proof -
  have "frame (\<lambda>v ds. Q v \<and> flags F ds) (set_domain_name k n (r\<lparr>ifs := s\<rparr>))" for n s
    by (rule set_domain_name_frame) (simp add: assms)
  then show ?thesis
    unfolding read_domain_def
    by (simp add: Let_def domain_ids_frame split: prod.splits)
qed

lemma domains_header_frame:
  assumes "frame (\<lambda>v ds. Q v \<and> flags F ds) r" and "F False"
  shows "frame (\<lambda>v ds. Q v \<and> flags F ds) (final_state (domains_header u geometry r))"
  using assms
  by (simp add: domains_header_def Let_def frame_def flags_resize split: prod.splits)

lemma process_domains_frame:
  assumes "frame (\<lambda>v ds. Q v \<and> flags F ds) r" and "F False"
  shows "frame (\<lambda>v ds. Q v \<and> flags F ds) (final_state (process_domains env u geometry r))"
  unfolding process_domains_def
proof (rule andthen_frame)
  show "frame (\<lambda>v ds. Q v \<and> flags F ds) (final_state (domains_header u geometry r))"
    using assms by (rule domains_header_frame)
  show "frame (\<lambda>v ds. Q v \<and> flags F ds)
          (final_state (for_loop [0..<length (geom_domains (geom r2))] (read_domain env geometry) () r2))"
    if "frame (\<lambda>v ds. Q v \<and> flags F ds) r2" for a r2
    by (rule for_loop_frame) (simp_all add: read_domain_frame that)
qed

subsection \<open>The sections in sequence\<close>

lemma read_version_frame:
  "frame (\<lambda>v ds. R ds) r \<Longrightarrow> frame (\<lambda>v ds. R ds) (final_state (read_version u geometry r))"
  by (simp add: read_version_def Let_def frame_def split: prod.splits)

lemma analyse_version: "version_id (geom (final_state (analyse geometry r))) = version_id (geom r)"
  by (simp add: analyse_def Let_def split: prod.splits)

lemma Returns_final: "m = Returns a r \<Longrightarrow> final_state m = r"
  by simp

lemma read_geom_Returns:
  assumes "read_geom env u g geometry = Returns () r" and "flags Not (geom_domains g)"
  obtains r4 where "flags Not (geom_domains (geom r4))" and "analyse geometry r4 = Returns () r"
proof -
  let ?K = "\<lambda>v ds. True \<and> flags Not ds"
  obtain content where c: "geometry_files env geometry = Some content"
    using assms(1) by (cases "geometry_files env geometry") (simp_all add: read_geom_def)
  let ?r0 = "open_reader g \<lparr>buf = content, failbit = False\<rparr>"
  from assms(1) c obtain r1 r2 r3 r4 where
    1: "read_version u geometry ?r0 = Returns () r1" and
    2: "process_meshes env u (dir geometry) r1 = Returns () r2" and
    3: "process_interfaces env u geometry (dir geometry) r2 = Returns () r3" and
    4: "process_domains env u geometry r3 = Returns () r4" and
    5: "analyse geometry r4 = Returns () r"
    unfolding read_geom_def by (auto simp: andthen_Returns)
  have "frame ?K ?r0"
    using assms(2) by (simp add: frame_def open_reader_def)
  then have "frame ?K (final_state (read_version u geometry ?r0))"
    using read_version_frame [of "flags Not" ?r0] by (simp add: frame_def)
  then have "frame ?K r1" by (simp add: 1)
  then have "frame ?K (final_state (process_meshes env u (dir geometry) r1))"
    by (rule process_meshes_frame)
  then have "frame ?K r2" by (simp add: 2)
  then have "frame ?K (final_state (process_interfaces env u geometry (dir geometry) r2))"
    by (rule process_interfaces_frame)
  then have "frame ?K r3" by (simp add: 3)
  then have "frame ?K (final_state (process_domains env u geometry r3))"
    by (rule process_domains_frame) simp
  then have "frame ?K r4" by (simp add: 4)
  then have "flags Not (geom_domains (geom r4))" by (simp add: frame_def)
  then show ?thesis using 5 by (rule that)
qed

lemma read_geom_version:
  assumes "geometry_files env geometry = Some content"
    and "read_version u geometry (open_reader g \<lparr>buf = content, failbit = False\<rparr>) = Returns x r1"
  shows "version_id (geom (final_state (read_geom env u g geometry))) = version_id (geom r1)"
proof -
  let ?K = "\<lambda>v ds. v = version_id (geom r1) \<and> flags (\<lambda>b. True) ds"
  have 0: "frame ?K r1" by (simp add: frame_def flags_def list_all_iff)
  have 5: "frame ?K (final_state (analyse geometry r4))" if "frame ?K r4" for r4
    using that by (simp add: frame_def analyse_version flags_def list_all_iff)
  have 4: "frame ?K (final_state (andthen (process_domains env u geometry r3)
             (\<lambda>_ r4. analyse geometry r4)))" if "frame ?K r3" for r3
    by (rule andthen_frame) (simp_all add: process_domains_frame that 5)
  have 3: "frame ?K (final_state (andthen (process_interfaces env u geometry (dir geometry) r2)
             (\<lambda>_ r3. andthen (process_domains env u geometry r3) (\<lambda>_ r4. analyse geometry r4))))"
    if "frame ?K r2" for r2
    by (rule andthen_frame) (simp_all add: process_interfaces_frame that 4)
  have 2: "frame ?K (final_state (andthen (process_meshes env u (dir geometry) r1)
             (\<lambda>_ r2. andthen (process_interfaces env u geometry (dir geometry) r2)
             (\<lambda>_ r3. andthen (process_domains env u geometry r3) (\<lambda>_ r4. analyse geometry r4)))))"
    by (rule andthen_frame) (simp_all add: process_meshes_frame 0 3)
  then show ?thesis
    unfolding read_geom_def by (simp add: assms frame_def)
qed

lemma read_geom_header_fails:
  assumes "geometry_files env geometry = Some content"
    and "\<not> returns (read_version u geometry (open_reader g \<lparr>buf = content, failbit = False\<rparr>))"
  shows "\<not> returns (read_geom env u g geometry) \<and> geom (final_state (read_geom env u g geometry)) = g"
proof -
  let ?r0 = "open_reader g \<lparr>buf = content, failbit = False\<rparr>"
  have "geom (final_state (read_version u geometry ?r0)) = g"
    using assms(2)
    by (auto simp: read_version_def Let_def open_reader_def split: prod.splits if_splits)
  moreover have "read_geom env u g geometry = read_version u geometry ?r0"
    using assms by (cases "read_version u geometry ?r0") (simp_all add: read_geom_def)
  ultimately show ?thesis using assms(2) by simp
qed

subsection \<open>The search for the outermost domain\<close>

lemma foldl_outer: "foldl (\<lambda>b hit. b \<and> \<not> inside hit) b hs \<longleftrightarrow> b \<and> (\<forall>hit\<in>set hs. \<not> inside hit)"
  by (induction hs arbitrary: b) auto

lemma outer_iff: "outer d \<longleftrightarrow> (\<forall>hit\<in>set (halfspaces d). \<not> inside hit)"
  by (simp add: outer_def foldl_outer)

lemma search_outermost_none:
  "\<forall>d\<in>set ds. \<not> outer d \<Longrightarrow> search_outermost out k ds = (out, ds)"
  by (induction ds arbitrary: k) auto

lemma search_outermost_first:
  "\<forall>x\<in>set pre. \<not> outer x \<Longrightarrow> outer d \<Longrightarrow>
   search_outermost out k (pre @ d # post) = (Some (k + length pre), pre @ mark_outermost d # post)"
  by (induction pre arbitrary: k) auto

lemma search_outermost_cases:
  obtains (none) "\<forall>d\<in>set ds. \<not> outer d" "search_outermost out k ds = (out, ds)"
  | (first) pre d post where "ds = pre @ d # post" "\<forall>x\<in>set pre. \<not> outer x" "outer d"
      "search_outermost out k ds = (Some (k + length pre), pre @ mark_outermost d # post)"
proof (cases "\<exists>d\<in>set ds. outer d")
  case True
  from split_list_first_prop [OF True]
  obtain pre d post where "ds = pre @ d # post" "outer d" "\<forall>x\<in>set pre. \<not> outer x"
    by blast
  then show ?thesis using first search_outermost_first by blast
next
  case False
  then show ?thesis using none search_outermost_none by blast
qed

subsection \<open>The header\<close>

lemma word32_gt1: "1 < (w :: 32 word) \<longleftrightarrow> w \<noteq> 0 \<and> w \<noteq> 1"
  by unat_arith




subsection \<open>The outermost domain of a parsed model\<close>

lemma mark_outermost_simps [simp]:
  "outermost (mark_outermost d)"
  "domain_name (mark_outermost d) = domain_name d"
  "halfspaces (mark_outermost d) =
     map (\<lambda>hit. (set_to_outermost (interface hit), inside hit)) (halfspaces d)"
  by (simp_all add: mark_outermost_def)

lemma nth_mid:
  "(pre @ x # post) ! i =
     (if i < length pre then pre ! i else if i = length pre then x else post ! (i - Suc (length pre)))"
  by (simp add: nth_append nth_Cons')

lemma analyse_Returns:
  assumes "analyse geometry r4 = Returns () r"
  shows "geom_domains (geom r) = snd (search_outermost None 0 (geom_domains (geom r4)))"
    and "geom_meshes (geom r) = geom_meshes (geom r4)"
    and "geom_is_nested (geom r) =
           determine_nested (fst (search_outermost None 0 (geom_domains (geom r4)))) (geom r)"
  using assms
  by (auto simp: analyse_def Let_def determine_nested_def split: prod.splits if_splits)

lemma marked_halfspaces:
  assumes "outer d" and "hit \<in> set (halfspaces (mark_outermost d))"
  shows "\<not> inside hit \<and> interface_outermost (interface hit)"
  using assms
  by (auto simp: outer_iff inside_def interface_def set_to_outermost_def)

lemma not_outer_inside: "\<not> outer d \<Longrightarrow> \<exists>hit\<in>set (halfspaces d). inside hit"
  by (simp add: outer_iff)

lemma flagged_mid:
  assumes "flags Not (pre @ d # post)" and "i < length (pre @ d # post)"
  shows "outermost ((pre @ mark_outermost d # post) ! i) \<longleftrightarrow> i = length pre"
proof -
  have "\<not> outermost (pre ! i)" if "i < length pre"
    using assms(1) that by (auto simp: flags_def list_all_iff)
  moreover have "\<not> outermost (post ! (i - Suc (length pre)))" if "length pre < i"
    using assms that by (auto simp: flags_def list_all_iff)
  ultimately show ?thesis
    by (auto simp: nth_mid)
qed

lemma read_head_geom:
  "read_geom example_env example_uninit empty_geometry ''/data/head.geom'' = Returns () head_reader"
  by code_simp

text \<open>
  Claim C6. After a parse that returns, into a destination none of whose domains was
  flagged before, a domain with \<open>outermost\<close> set is the only one; all its half-spaces
  have \<open>inside = false\<close> and their interfaces are flagged outermost; every domain
  before it in the order of the file has a half-space with \<open>inside = true\<close>, so it is
  the first domain that qualifies.
\<close>

theorem outermost_unique_first:
  assumes "read_geom env u g geometry = Returns () r"
    and "list_all (\<lambda>d. \<not> outermost d) (geom_domains g)"
    and "i < length (geom_domains (geom r))"
    and "outermost (geom_domains (geom r) ! i)"
  shows "(\<forall>j<length (geom_domains (geom r)). outermost (geom_domains (geom r) ! j) \<longrightarrow> j = i) \<and>
         (\<forall>hit\<in>set (halfspaces (geom_domains (geom r) ! i)).
             \<not> inside hit \<and> interface_outermost (interface hit)) \<and>
         (\<forall>j<i. \<exists>hit\<in>set (halfspaces (geom_domains (geom r) ! j)). inside hit)"
proof -
  have "flags Not (geom_domains g)"
    using assms(2) by (simp add: flags_def)
  with assms(1) obtain r4 where
    fl: "flags Not (geom_domains (geom r4))" and an: "analyse geometry r4 = Returns () r"
    by (rule read_geom_Returns)
  let ?ds = "geom_domains (geom r4)"
  have ds': "geom_domains (geom r) = snd (search_outermost None 0 ?ds)"
    using an by (rule analyse_Returns)
  show ?thesis
  proof (cases rule: search_outermost_cases [of ?ds None 0])
    case none
    then have "geom_domains (geom r) = ?ds" using ds' by simp
    then have "\<not> outermost (geom_domains (geom r) ! i)"
      using flags_nth [OF fl, of i] assms(3) by simp
    with assms(4) show ?thesis by simp
  next
    case (first pre d post)
    have eq: "geom_domains (geom r) = pre @ mark_outermost d # post"
      using ds' first(4) by simp
    have flagged: "outermost (geom_domains (geom r) ! j) \<longleftrightarrow> j = length pre"
      if "j < length (geom_domains (geom r))" for j
    proof -
      have "j < length (pre @ d # post)" using that by (simp add: eq)
      with fl first(1) show ?thesis
        unfolding eq by (simp only: flagged_mid)
    qed
    have i: "i = length pre"
      using flagged [OF assms(3)] assms(4) by simp
    have at_i: "geom_domains (geom r) ! i = mark_outermost d"
      unfolding eq i by simp
    have 1: "\<forall>j<length (geom_domains (geom r)). outermost (geom_domains (geom r) ! j) \<longrightarrow> j = i"
      using flagged i by simp
    have 2: "\<forall>hit\<in>set (halfspaces (geom_domains (geom r) ! i)).
               \<not> inside hit \<and> interface_outermost (interface hit)"
      unfolding at_i using marked_halfspaces [OF first(3)] by blast
    have 3: "\<forall>j<i. \<exists>hit\<in>set (halfspaces (geom_domains (geom r) ! j)). inside hit"
    proof (intro allI impI)
      fix j assume "j < i"
      then have "geom_domains (geom r) ! j = pre ! j" "pre ! j \<in> set pre"
        unfolding eq i by (simp_all add: nth_append)
      with first(2) show "\<exists>hit\<in>set (halfspaces (geom_domains (geom r) ! j)). inside hit"
        by (simp add: not_outer_inside)
    qed
    from 1 2 3 show ?thesis by (intro conjI)
  qed
qed

theorem outermost_unique_first_witness:
  "read_geom example_env example_uninit empty_geometry ''/data/head.geom'' = Returns () head_reader \<and>
   list_all (\<lambda>d. \<not> outermost d) (geom_domains empty_geometry) \<and>
   2 < length (geom_domains (geom head_reader)) \<and>
   outermost (geom_domains (geom head_reader) ! 2) \<and>
   list_all (\<lambda>j. outermost (geom_domains (geom head_reader) ! j) = (j = 2)) [0, 1, 2] \<and>
   list_all (\<lambda>hit. \<not> inside hit \<and> interface_outermost (interface hit))
     (halfspaces (geom_domains (geom head_reader) ! 2)) \<and>
   list_ex inside (halfspaces (geom_domains (geom head_reader) ! 0)) \<and>
   list_ex inside (halfspaces (geom_domains (geom head_reader) ! 1))"
proof -
  have a: "list_all (\<lambda>d. \<not> outermost d) (geom_domains empty_geometry)"
    by (simp add: empty_geometry_def)
  have b: "2 < length (geom_domains (geom head_reader))"
    by (simp add: head_reader_def head_model_def)
  have c: "outermost (geom_domains (geom head_reader) ! 2)"
    by (simp add: head_reader_def head_model_def)
  show ?thesis
    using outermost_unique_first [OF read_head_geom a b c] read_head_geom a b c
    by (simp add: head_reader_def head_model_def inside_def interface_def
        skull_interface_def cortex_interface_def)
qed

subsection \<open>The nested test of a parsed model\<close>

lemma fold_out_interface:
  "fold (\<lambda>hit n. if \<not> inside hit then n + 1 else n) hs (a :: 32 word) =
     a + of_nat (length (filter (\<lambda>hit. \<not> snd hit) hs))"
  by (induction hs arbitrary: a) (simp_all add: inside_def)

lemma out_interface_eq:
  "out_interface dit_out k d = (if Some k \<noteq> dit_out then of_nat (outside_count d) else 0)"
  by (simp add: out_interface_def outside_count_def fold_out_interface)

lemma of_nat_ge2:
  assumes "n < 2 ^ 32"
  shows "(2 \<le> (of_nat n :: 32 word)) \<longleftrightarrow> 2 \<le> n"
proof -
  have "unat (of_nat n :: 32 word) = n"
    using assms by (simp add: unat_of_nat)
  then show ?thesis
    by (simp add: word_le_nat_alt)
qed

lemma outside_two_iff:
  "outside_two dit_out k ds \<longleftrightarrow> (\<exists>i<length ds. 2 \<le> out_interface dit_out (k + i) (ds ! i))"
proof (induction ds arbitrary: k)
  case Nil
  then show ?case by simp
next
  case (Cons d ds)
  have "(\<exists>i<length (d # ds). 2 \<le> out_interface dit_out (k + i) ((d # ds) ! i)) \<longleftrightarrow>
        2 \<le> out_interface dit_out k d \<or> (\<exists>i<length ds. 2 \<le> out_interface dit_out (k + 1 + i) (ds ! i))"
    by (auto simp: less_Suc_eq_0_disj)
  then show ?case
    using Cons [of "k + 1"] by auto
qed

lemma unoriented_mesh_iff:
  "unoriented_mesh ms ds \<longleftrightarrow> list_ex (\<lambda>m. m_oriented m ds = 0) ms"
  by (induction ms) simp_all

lemma fold_oms:
  "fold (\<lambda>iit w. if mesh iit = m then w + word_of_int (orientation iit) else w) oms (a :: 32 word) =
     a + word_of_int (net_oms m oms)"
  by (induction oms arbitrary: a) (simp_all add: net_oms_def mesh_def orientation_def)

lemma fold_halfspaces:
  "fold (\<lambda>hit. fold (\<lambda>iit w. if mesh iit = m then w + word_of_int (orientation iit) else w)
                   (oriented_meshes (interface hit))) hs (a :: 32 word) =
     a + word_of_int (sum_list (map (\<lambda>hit. net_oms m (oriented_meshes (interface hit))) hs))"
  by (induction hs arbitrary: a) (simp_all add: fold_oms)

lemma fold_domains:
  "fold (\<lambda>d. fold (\<lambda>hit. fold (\<lambda>iit w. if mesh iit = m then w + word_of_int (orientation iit) else w)
                              (oriented_meshes (interface hit))) (halfspaces d)) ds (a :: 32 word) =
     a + word_of_int (sum_list (map (\<lambda>d. sum_list (map (\<lambda>hit. net_oms m (oriented_meshes (interface hit)))
                                                   (halfspaces d))) ds))"
  by (induction ds arbitrary: a) (simp_all add: fold_halfspaces)

lemma sum_list_concat_int: "sum_list (concat xss) = sum_list (map sum_list xss)"
  for xss :: "int list list"
  by (induction xss) simp_all

lemma net_orientation_sum:
  "net_orientation m ds =
     sum_list (map (\<lambda>d. sum_list (map (\<lambda>hit. net_oms m (oriented_meshes (interface hit)))
                                     (halfspaces d))) ds)"
  by (simp add: net_orientation_def triples_def net_oms_def filter_concat map_concat
      sum_list_concat_int filter_map comp_def)

lemma m_oriented_net: "m_oriented m ds = word_of_int (net_orientation m ds)"
  by (simp add: m_oriented_def fold_domains net_orientation_sum)

lemma abs_sum_pm1: "\<bar>sum_list (map (\<lambda>t. if P t then 1 else - 1) xs)\<bar> \<le> int (length xs)"
  by (induction xs) auto

lemma net_orientation_bound: "\<bar>net_orientation m ds\<bar> \<le> int (length (triples ds))"
proof -
  have "\<bar>net_orientation m ds\<bar> \<le> int (length (filter (\<lambda>t. fst (snd (snd t)) = m) (triples ds)))"
    unfolding net_orientation_def by (rule abs_sum_pm1)
  also have "\<dots> \<le> int (length (triples ds))"
    by simp
  finally show ?thesis .
qed

lemma word32_of_int_0:
  assumes "\<bar>x\<bar> < 2 ^ 32"
  shows "(word_of_int x :: 32 word) = 0 \<longleftrightarrow> x = 0"
proof
  assume "(word_of_int x :: 32 word) = 0"
  then have "(2 :: int) ^ 32 dvd x"
    by (simp add: word_of_int_eq_0_iff)
  then show "x = 0"
    using assms by (auto dest: zdvd_imp_le simp: dvd_def)
qed simp

lemma m_oriented_0:
  assumes "length (triples ds) < 2 ^ 32"
  shows "m_oriented m ds = 0 \<longleftrightarrow> net_orientation m ds = 0"
proof -
  have "\<bar>net_orientation m ds\<bar> < 2 ^ 32"
    using net_orientation_bound [of m ds] assms by simp
  then show ?thesis
    by (simp add: m_oriented_net word32_of_int_0)
qed


lemma dit_out_flagged:
  assumes fl: "flags Not ds4"
    and so: "search_outermost None 0 ds4 = (out', ds)"
    and i: "i < length ds"
  shows "Some i \<noteq> out' \<longleftrightarrow> \<not> outermost (ds ! i)"
proof (cases rule: search_outermost_cases [of ds4 None 0])
  case none
  then have eq: "ds = ds4" "out' = None" using so by simp_all
  have "\<not> outermost (ds ! i)"
    using flags_nth [OF fl, of i] i eq(1) by simp
  then show ?thesis using eq(2) by simp
next
  case (first pre d post)
  then have eq: "ds = pre @ mark_outermost d # post" "out' = Some (length pre)"
    using so by simp_all
  have "i < length (pre @ d # post)" using i by (simp add: eq)
  then show ?thesis
    using flagged_mid [of pre d post i] fl first(1) by (simp add: eq)
qed

lemma outside_count_le: "outside_count d \<le> length (halfspaces d)"
  by (simp add: outside_count_def)

lemma head_sizes:
  "length (triples (geom_domains (geom head_reader))) < 2 ^ 32"
  "list_all (\<lambda>d. length (halfspaces d) < 2 ^ 32) (geom_domains (geom head_reader))"
  by (simp_all add: head_reader_def head_model_def triples_def interface_def
      skull_interface_def cortex_interface_def)

text \<open>
  Claim C3. For a parse that returns, the boolean stored in the model is the rule of
  the description: nested unless (a) a domain that is not the outermost one has two or
  more half-spaces with \<open>inside = false\<close>, or (b) the net signed orientation of some
  mesh of the geometry, over the triples it takes part in, is zero. The hypotheses say
  what the code relies on: no domain of the destination was flagged before the call,
  and the two \<^verbatim>\<open>unsigned\<close> counters do not wrap around.
\<close>

theorem nested_classification:
  assumes "read_geom env u g geometry = Returns () r"
    and "list_all (\<lambda>d. \<not> outermost d) (geom_domains g)"
    and "length (triples (geom_domains (geom r))) < 2 ^ 32"
    and "list_all (\<lambda>d. length (halfspaces d) < 2 ^ 32) (geom_domains (geom r))"
  shows "geom_is_nested (geom r) = nested_rule (geom r)"
proof -
  have "flags Not (geom_domains g)"
    using assms(2) by (simp add: flags_def)
  with assms(1) obtain r4 where
    fl: "flags Not (geom_domains (geom r4))" and an: "analyse geometry r4 = Returns () r"
    by (rule read_geom_Returns)
  let ?ds = "geom_domains (geom r)"
  obtain out' where so: "search_outermost None 0 (geom_domains (geom r4)) = (out', ?ds)"
    using analyse_Returns(1) [OF an]
    by (cases "search_outermost None 0 (geom_domains (geom r4))") simp
  have nested: "geom_is_nested (geom r) = determine_nested out' (geom r)"
    using analyse_Returns(3) [OF an] so by simp
  have count: "(2 \<le> out_interface out' i (?ds ! i)) \<longleftrightarrow>
               \<not> outermost (?ds ! i) \<and> 2 \<le> outside_count (?ds ! i)"
    if i: "i < length ?ds" for i
  proof -
    have "length (halfspaces (?ds ! i)) < 2 ^ 32"
      using assms(4) i by (simp add: list_all_length)
    then have "outside_count (?ds ! i) < 2 ^ 32"
      using outside_count_le [of "?ds ! i"] by simp
    then show ?thesis
      using dit_out_flagged [OF fl so i]
      by (simp add: out_interface_eq of_nat_ge2)
  qed
  have a: "outside_two out' 0 ?ds \<longleftrightarrow>
           list_ex (\<lambda>d. \<not> outermost d \<and> 2 \<le> outside_count d) ?ds"
    using count by (auto simp: outside_two_iff list_ex_length)
  have b: "unoriented_mesh ms ?ds \<longleftrightarrow> list_ex (\<lambda>m. net_orientation m ?ds = 0) ms" for ms
    by (simp add: unoriented_mesh_iff m_oriented_0 [OF assms(3)])
  show ?thesis
    by (simp add: nested determine_nested_def nested_rule_def a b)
qed

theorem nested_classification_witness:
  "read_geom example_env example_uninit empty_geometry ''/data/head.geom'' = Returns () head_reader \<and>
   list_all (\<lambda>d. \<not> outermost d) (geom_domains empty_geometry) \<and>
   list_ex outermost (geom_domains (geom head_reader)) \<and>
   geom_is_nested (geom head_reader) \<and> nested_rule (geom head_reader)"
proof -
  have a: "list_all (\<lambda>d. \<not> outermost d) (geom_domains empty_geometry)"
    by (simp add: empty_geometry_def)
  have b: "list_ex outermost (geom_domains (geom head_reader))"
    by (simp add: head_reader_def head_model_def)
  have c: "geom_is_nested (geom head_reader)"
    by (simp add: head_reader_def head_model_def)
  show ?thesis
    using nested_classification [OF read_head_geom a head_sizes] read_head_geom a b c
    by simp
qed

subsection \<open>The ids of a domain\<close>

lemma andthen_assoc:
  "andthen (andthen m f) h = andthen m (\<lambda>a r. andthen (f a r) h)"
  by (cases m) simp_all

lemma push_back_halfspace_simps [simp]:
  "cerr (push_back_halfspace k hs r) = cerr r"
  "interfaces (push_back_halfspace k hs r) = interfaces r"
  "ifs (push_back_halfspace k hs r) = ifs r"
  "length (geom_domains (geom (push_back_halfspace k hs r))) = length (geom_domains (geom r))"
  by (simp_all add: push_back_halfspace_def)

lemma push_back_halfspace_nth:
  assumes "k < length (geom_domains (geom r))"
  shows "halfspaces (geom_domains (geom (push_back_halfspace k hs r)) ! k) =
           halfspaces (geom_domains (geom r) ! k) @ [hs]"
    and "domain_name (geom_domains (geom (push_back_halfspace k hs r)) ! k) =
           domain_name (geom_domains (geom r) ! k)"
  using assms by (simp_all add: push_back_halfspace_def)

lemma match_interfaces_Returns:
  assumes "match_interfaces env k ident ins visited rest found r = Returns found' r'"
    and "k < length (geom_domains (geom r))"
  shows "\<exists>block. halfspaces (geom_domains (geom r') ! k) = halfspaces (geom_domains (geom r) ! k) @ block
           \<and> (\<forall>h\<in>set block. snd h = ins) \<and> (found' \<longleftrightarrow> found \<or> block \<noteq> [])
           \<and> length (geom_domains (geom r')) = length (geom_domains (geom r))
           \<and> domain_name (geom_domains (geom r') ! k) = domain_name (geom_domains (geom r) ! k)"
  using assms
proof (induction rest arbitrary: visited found r)
  case Nil
  then show ?case by auto
next
  case (Cons iit rest)
  show ?case
  proof (cases "interface_name iit = ident")
    case False
    with Cons.prems have "match_interfaces env k ident ins (visited @ [iit]) rest found r = Returns found' r'"
      by simp
    from Cons.IH [OF this Cons.prems(2)] show ?thesis .
  next
    case True
    obtain closed iit1 where c: "check env iit = (closed, iit1)"
      by (cases "check env iit")
    with True Cons.prems(1) have closed: closed
      by (cases closed) simp_all
    let ?r1 = "push_back_halfspace k (iit1, ins) r"
    have m: "match_interfaces env k ident ins (visited @ [iit1]) rest True ?r1 = Returns found' r'"
      using True c closed Cons.prems(1) by simp
    have k: "k < length (geom_domains (geom ?r1))"
      using Cons.prems(2) by simp
    from Cons.IH [OF m k] obtain block where
      b: "halfspaces (geom_domains (geom r') ! k) = halfspaces (geom_domains (geom ?r1) ! k) @ block"
         "\<forall>h\<in>set block. snd h = ins" "found'"
         "length (geom_domains (geom r')) = length (geom_domains (geom ?r1))"
         "domain_name (geom_domains (geom r') ! k) = domain_name (geom_domains (geom ?r1) ! k)"
      by auto
    have "halfspaces (geom_domains (geom r') ! k) =
            halfspaces (geom_domains (geom r) ! k) @ ((iit1, ins) # block)"
      using b(1) push_back_halfspace_nth(1) [OF Cons.prems(2)] by simp
    moreover have "\<forall>h\<in>set ((iit1, ins) # block). snd h = ins"
      using b(2) by simp
    ultimately show ?thesis
      using b(3,4,5) push_back_halfspace_nth(2) [OF Cons.prems(2)]
      by (intro exI [of _ "(iit1, ins) # block"]) simp
  qed
qed

lemma lookup_interface_Returns:
  assumes "lookup_interface env k ident ins r = Returns x r'"
    and "k < length (geom_domains (geom r))"
  shows "\<exists>block. block \<noteq> [] \<and>
           halfspaces (geom_domains (geom r') ! k) = halfspaces (geom_domains (geom r) ! k) @ block
           \<and> (\<forall>h\<in>set block. snd h = ins)
           \<and> length (geom_domains (geom r')) = length (geom_domains (geom r))
           \<and> domain_name (geom_domains (geom r') ! k) = domain_name (geom_domains (geom r) ! k)"
proof -
  from assms(1) obtain found r1 where
    m: "match_interfaces env k ident ins [] (interfaces r) False r = Returns found r1" and
    f: "(if \<not> found then Throws (NonExistingDomain (domain_name (geom_domains (geom r1) ! k)) ident) r1
         else Returns () r1) = Returns x r'"
    unfolding lookup_interface_def by (auto simp: andthen_Returns)
  from f have "found" "r1 = r'"
    by (auto split: if_splits)
  with match_interfaces_Returns [OF m assms(2)] show ?thesis
    by auto
qed

lemma domain_ids_Returns:
  assumes "domain_ids env geometry k ids r = Returns x r'"
    and "k < length (geom_domains (geom r))"
  shows "\<exists>blocks. halfspaces (geom_domains (geom r') ! k) =
                    halfspaces (geom_domains (geom r) ! k) @ concat blocks
           \<and> list_all2 (\<lambda>ident block. block \<noteq> [] \<and> (\<forall>h\<in>set block. inside h = leading_minus ident))
                (takeWhile (\<lambda>ident. ident \<noteq> ''shared'') ids) blocks
           \<and> length (geom_domains (geom r')) = length (geom_domains (geom r))
           \<and> domain_name (geom_domains (geom r') ! k) = domain_name (geom_domains (geom r) ! k)"
  using assms
proof (induction ids arbitrary: r)
  case Nil
  then show ?case by simp
next
  case (Cons ident ids)
  show ?case
  proof (cases "ident = ''shared''")
    case True
    with Cons.prems(1) have "geom r' = geom r"
      by auto
    with True show ?thesis by simp
  next
    case False
    define signed where "signed \<longleftrightarrow> ident \<noteq> [] \<and> (hd ident = CHR ''-'' \<or> hd ident = CHR ''+'')"
    define ins where "ins = (if signed then hd ident = CHR ''-'' else False)"
    define nm where "nm = (if signed then tl ident else ident)"
    have step: "domain_ids env geometry k (ident # ids) r =
        andthen (lookup_interface env k nm ins r) (\<lambda>_ r1. domain_ids env geometry k ids r1)"
      using False by (simp add: signed_def ins_def nm_def)
    have ins: "ins = leading_minus ident"
      by (auto simp: ins_def signed_def leading_minus_def)
    from Cons.prems(1) obtain y r1 where
      l: "lookup_interface env k nm ins r = Returns y r1" and
      d: "domain_ids env geometry k ids r1 = Returns x r'"
      unfolding step by (auto simp: andthen_Returns)
    from lookup_interface_Returns [OF l Cons.prems(2)] obtain block where
      b: "block \<noteq> []"
         "halfspaces (geom_domains (geom r1) ! k) = halfspaces (geom_domains (geom r) ! k) @ block"
         "\<forall>h\<in>set block. snd h = ins"
         "length (geom_domains (geom r1)) = length (geom_domains (geom r))"
         "domain_name (geom_domains (geom r1) ! k) = domain_name (geom_domains (geom r) ! k)"
      by auto
    have k1: "k < length (geom_domains (geom r1))"
      using b(4) Cons.prems(2) by simp
    from Cons.IH [OF d k1] obtain blocks where
      bs: "halfspaces (geom_domains (geom r') ! k) = halfspaces (geom_domains (geom r1) ! k) @ concat blocks"
          "list_all2 (\<lambda>ident block. block \<noteq> [] \<and> (\<forall>h\<in>set block. inside h = leading_minus ident))
             (takeWhile (\<lambda>ident. ident \<noteq> ''shared'') ids) blocks"
          "length (geom_domains (geom r')) = length (geom_domains (geom r1))"
          "domain_name (geom_domains (geom r') ! k) = domain_name (geom_domains (geom r1) ! k)"
      by auto
    have "halfspaces (geom_domains (geom r') ! k) =
            halfspaces (geom_domains (geom r) ! k) @ concat (block # blocks)"
      using bs(1) b(2) by simp
    moreover have "list_all2 (\<lambda>ident block. block \<noteq> [] \<and> (\<forall>h\<in>set block. inside h = leading_minus ident))
             (takeWhile (\<lambda>ident. ident \<noteq> ''shared'') (ident # ids)) (block # blocks)"
      using False bs(2) b(1,3) ins by (simp add: inside_def)
    ultimately show ?thesis
      using bs(3,4) b(4,5) by (intro exI [of _ "block # blocks"]) simp
  qed
qed

lemma domain_ids_append_fun:
  assumes "''shared'' \<notin> set pre"
  shows "domain_ids env geometry k (pre @ ids) =
           (\<lambda>r. andthen (domain_ids env geometry k pre r) (\<lambda>_. domain_ids env geometry k ids))"
  using assms
proof (induction pre)
  case Nil
  show ?case by (rule ext) simp
next
  case (Cons ident pre)
  then have ih: "domain_ids env geometry k (pre @ ids) =
           (\<lambda>r. andthen (domain_ids env geometry k pre r) (\<lambda>_. domain_ids env geometry k ids))"
    by simp
  have ne: "ident \<noteq> ''shared''"
    using Cons.prems by auto
  show ?case
    using ne by (intro ext) (simp add: ih andthen_assoc)
qed

lemma domain_ids_append:
  assumes "''shared'' \<notin> set pre"
  shows "domain_ids env geometry k (pre @ ids) r =
           andthen (domain_ids env geometry k pre r) (\<lambda>_. domain_ids env geometry k ids)"
  by (simp add: domain_ids_append_fun [OF assms])


subsection \<open>The ids of an interface\<close>

lemma interface_id_sign_eq: "interface_id_sign ident = (\<not> leading_minus ident, strip_sign ident)"
  by (cases ident) (auto simp: interface_id_sign_def leading_minus_def strip_sign_def)

lemma push_back_mesh_simps [simp]:
  "geom (push_back_mesh i om r) = geom r"
  "length (interfaces (push_back_mesh i om r)) = length (interfaces r)"
  by (simp_all add: push_back_mesh_def)

lemma push_back_mesh_nth:
  "i < length (interfaces r) \<Longrightarrow>
   oriented_meshes (interfaces (push_back_mesh i om r) ! i) = oriented_meshes (interfaces r ! i) @ [om]"
  by (simp add: push_back_mesh_def)

lemma interface_ids_Returns:
  assumes "interface_ids i ids r = Returns x r'" and "i < length (interfaces r)"
  shows "\<exists>new. oriented_meshes (interfaces r' ! i) = oriented_meshes (interfaces r ! i) @ new
           \<and> list_all2 (\<lambda>ident om. geom_mesh (geom r) (strip_sign ident) = Some (mesh om)
                                    \<and> snd om = (\<not> leading_minus ident)) ids new
           \<and> geom r' = geom r \<and> length (interfaces r') = length (interfaces r)"
  using assms
proof (induction ids arbitrary: r)
  case Nil
  then show ?case by simp
next
  case (Cons ident ids)
  from Cons.prems(1) obtain m where
    m: "geom_mesh (geom r) (strip_sign ident) = Some m" and
    d: "interface_ids i ids (push_back_mesh i (m, \<not> leading_minus ident) r) = Returns x r'"
    by (auto simp: interface_id_sign_eq split: option.splits)
  let ?r1 = "push_back_mesh i (m, \<not> leading_minus ident) r"
  have i1: "i < length (interfaces ?r1)"
    using Cons.prems(2) by simp
  from Cons.IH [OF d i1] obtain new where
    n: "oriented_meshes (interfaces r' ! i) = oriented_meshes (interfaces ?r1 ! i) @ new"
       "list_all2 (\<lambda>ident om. geom_mesh (geom ?r1) (strip_sign ident) = Some (mesh om)
                                \<and> snd om = (\<not> leading_minus ident)) ids new"
       "geom r' = geom ?r1" "length (interfaces r') = length (interfaces ?r1)"
    by auto
  have "oriented_meshes (interfaces r' ! i) =
          oriented_meshes (interfaces r ! i) @ ((m, \<not> leading_minus ident) # new)"
    using n(1) push_back_mesh_nth [OF Cons.prems(2)] by simp
  moreover have "list_all2 (\<lambda>ident om. geom_mesh (geom r) (strip_sign ident) = Some (mesh om)
                                \<and> snd om = (\<not> leading_minus ident))
                   (ident # ids) ((m, \<not> leading_minus ident) # new)"
    using n(2) m by (simp add: mesh_def)
  ultimately show ?case
    using n(3,4) by (intro exI [of _ "(m, \<not> leading_minus ident) # new"]) simp
qed




subsection \<open>An id that is no interface\<close>

lemma match_interfaces_none:
  assumes "\<forall>i\<in>set rest. interface_name i \<noteq> ident"
  shows "match_interfaces env k ident ins visited rest found r =
           Returns found (r\<lparr>interfaces := visited @ rest\<rparr>)"
  using assms by (induction rest arbitrary: visited) simp_all

lemma lookup_interface_none:
  assumes "\<forall>i\<in>set (interfaces r). interface_name i \<noteq> ident"
  shows "lookup_interface env k ident ins r =
           Throws (NonExistingDomain (domain_name (geom_domains (geom r) ! k)) ident) r"
  by (simp add: lookup_interface_def match_interfaces_none [OF assms])

lemma domain_ids_step:
  assumes "ident \<noteq> ''shared''"
  shows "domain_ids env geometry k (ident # ids) r =
           andthen (lookup_interface env k (strip_sign ident) (leading_minus ident) r)
             (\<lambda>_ r1. domain_ids env geometry k ids r1)"
  using assms by (auto simp: strip_sign_def leading_minus_def)

lemma set_domain_name_simps [simp]:
  "k < length (geom_domains (geom r)) \<Longrightarrow>
     domain_name (geom_domains (geom (set_domain_name k n r)) ! k) = n"
  "length (geom_domains (geom (set_domain_name k n r))) = length (geom_domains (geom r))"
  "cerr (set_domain_name k n r) = cerr r"
  "interfaces (set_domain_name k n r) = interfaces r"
  by (simp_all add: set_domain_name_def)

lemma read_domain_split:
  assumes "scan_domain k r = (dname, line, s)"
    and "words line = pre @ ident # rest"
    and "''shared'' \<notin> set pre"
    and "domain_ids env geometry k pre (set_domain_name k dname (r\<lparr>ifs := s\<rparr>)) = Returns () r1"
  shows "read_domain env geometry k x r = domain_ids env geometry k (ident # rest) r1"
  using assms by (simp add: read_domain_def domain_ids_append)

lemma read_domain_unknown_interface:
  assumes "scan_domain k r = (dname, line, s)"
    and "k < length (geom_domains (geom r))"
    and "words line = pre @ ident # rest"
    and "''shared'' \<notin> set pre"
    and "ident \<noteq> ''shared''"
    and "domain_ids env geometry k pre (set_domain_name k dname (r\<lparr>ifs := s\<rparr>)) = Returns () r1"
    and "\<forall>i\<in>set (interfaces r1). interface_name i \<noteq> strip_sign ident"
  shows "read_domain env geometry k x r = Throws (NonExistingDomain dname (strip_sign ident)) r1"
proof -
  let ?r0 = "set_domain_name k dname (r\<lparr>ifs := s\<rparr>)"
  have k0: "k < length (geom_domains (geom ?r0))"
    using assms(2) by simp
  have "domain_name (geom_domains (geom r1) ! k) = domain_name (geom_domains (geom ?r0) ! k)"
    using domain_ids_Returns [OF assms(6) k0] by blast
  also have "\<dots> = dname"
    using assms(2) by simp
  finally have n: "domain_name (geom_domains (geom r1) ! k) = dname" .
  have "read_domain env geometry k x r = domain_ids env geometry k (ident # rest) r1"
    using assms(1,3,4,6) by (rule read_domain_split)
  also have "\<dots> = Throws (NonExistingDomain dname (strip_sign ident)) r1"
    by (simp only: domain_ids_step [OF assms(5)] lookup_interface_none [OF assms(7)] n andthen_simps)
  finally show ?thesis .
qed


lemma scan_domains_reader:
  "scan_domain 0 domains_reader =
     (''Brain'', '' -1 Ventricle'', \<lparr>buf = unlines [''Domain Air 1''], failbit = False\<rparr>)"
  by code_simp

lemma words_domain_line: "words '' -1 Ventricle'' = [''-1''] @ ''Ventricle'' # []"
  by code_simp

lemma read_ventricle_geom:
  "case read_geom example_env example_uninit empty_geometry ''/data/ventricle.geom'' of
     Throws e r \<Rightarrow> e = NonExistingDomain ''Brain'' ''Ventricle''
   | Returns x r \<Rightarrow> False
   | Exits n r \<Rightarrow> False"
  by code_simp

subsection \<open>An interface that is not closed\<close>

lemma match_interfaces_Exits:
  assumes "interface_name iit = ident" and "\<not> fst (check env iit)"
    and "\<forall>i\<in>set before. interface_name i = ident \<longrightarrow> fst (check env i)"
  shows "\<exists>r'. match_interfaces env k ident ins visited (before @ iit # after) found r = Exits 1 r' \<and>
              cerr r' = cerr r @ [InterfaceNotClosed (interface_name (snd (check env iit)))]"
  using assms(3)
proof (induction before arbitrary: visited found r)
  case Nil
  obtain closed iit1 where c: "check env iit = (closed, iit1)"
    by (cases "check env iit")
  with assms(1,2) show ?case by simp
next
  case (Cons i before)
  show ?case
  proof (cases "interface_name i = ident")
    case False
    with Cons show ?thesis by simp
  next
    case True
    obtain closed i1 where c: "check env i = (closed, i1)"
      by (cases "check env i")
    with True Cons.prems have closed by simp
    have "\<exists>r'. match_interfaces env k ident ins (visited @ [i1]) (before @ iit # after) True
                  (push_back_halfspace k (i1, ins) r) = Exits 1 r' \<and>
                cerr r' = cerr (push_back_halfspace k (i1, ins) r) @
                  [InterfaceNotClosed (interface_name (snd (check env iit)))]"
      by (rule Cons.IH) (use Cons.prems in simp)
    with True c \<open>closed\<close> show ?thesis by simp
  qed
qed

lemma read_domain_unclosed_interface:
  assumes "scan_domain k r = (dname, line, s)"
    and "words line = pre @ ident # rest"
    and "''shared'' \<notin> set pre"
    and "ident \<noteq> ''shared''"
    and "domain_ids env geometry k pre (set_domain_name k dname (r\<lparr>ifs := s\<rparr>)) = Returns () r1"
    and "interfaces r1 = before @ iit # after"
    and "interface_name iit = strip_sign ident"
    and "\<not> fst (check env iit)"
    and "\<forall>i\<in>set before. interface_name i = strip_sign ident \<longrightarrow> fst (check env i)"
  shows "\<exists>r'. read_domain env geometry k x r = Exits 1 r' \<and>
              cerr r' = cerr r1 @ [InterfaceNotClosed (interface_name (snd (check env iit)))]"
proof -
  have rd: "read_domain env geometry k x r = domain_ids env geometry k (ident # rest) r1"
    using assms(1,2,3,5) by (rule read_domain_split)
  obtain r' where
    m: "match_interfaces env k (strip_sign ident) (leading_minus ident) [] (interfaces r1) False r1 = Exits 1 r'"
    and c: "cerr r' = cerr r1 @ [InterfaceNotClosed (interface_name (snd (check env iit)))]"
    using match_interfaces_Exits [OF assms(7,8,9)] unfolding assms(6) by blast
  have lk: "lookup_interface env k (strip_sign ident) (leading_minus ident) r1 = Exits 1 r'"
    by (simp add: lookup_interface_def m)
  have "read_domain env geometry k x r = Exits 1 r'"
    by (simp only: rd domain_ids_step [OF assms(4)] lk andthen_simps)
  with c show ?thesis by blast
qed

subsection \<open>A failure in the loop over the domains\<close>

lemma for_loop_append_fun:
  "for_loop (xs @ ys) body = (\<lambda>a r. andthen (for_loop xs body a r) (for_loop ys body))"
proof (induction xs)
  case Nil
  show ?case by (intro ext) simp
next
  case (Cons x xs)
  show ?case by (intro ext) (simp add: Cons andthen_assoc)
qed

lemma for_loop_append:
  "for_loop (xs @ ys) body a r = andthen (for_loop xs body a r) (for_loop ys body)"
  by (simp add: for_loop_append_fun)

lemma upt_split:
  assumes "k < n"
  shows "[0..<n] = [0..<k] @ k # [Suc k..<n]"
proof -
  obtain m where n: "n = k + Suc m"
    using assms less_iff_Suc_add by auto
  have "[0..<k + Suc m] = [0..<k] @ [k..<k + Suc m]"
    by (rule upt_add_eq_append) simp
  also have "[k..<k + Suc m] = k # [Suc k..<k + Suc m]"
    by (rule upt_conv_Cons) simp
  finally show ?thesis
    unfolding n .
qed

lemma match_interfaces_length:
  "length (geom_domains (geom (final_state (match_interfaces env k ident ins visited rest found r)))) =
     length (geom_domains (geom r))"
proof (induction rest arbitrary: visited found r)
  case Nil
  show ?case by simp
next
  case (Cons iit rest)
  obtain closed iit1 where c: "check env iit = (closed, iit1)"
    by (cases "check env iit")
  show ?case
    using c by (cases closed) (simp_all add: Cons)
qed

lemma lookup_interface_length:
  "length (geom_domains (geom (final_state (lookup_interface env k ident ins r)))) =
     length (geom_domains (geom r))"
proof (cases "match_interfaces env k ident ins [] (interfaces r) False r")
  case (Returns found r1)
  with match_interfaces_length [of env k ident ins "[]" "interfaces r" False r]
  show ?thesis by (simp add: lookup_interface_def)
next
  case (Throws e r1)
  with match_interfaces_length [of env k ident ins "[]" "interfaces r" False r]
  show ?thesis by (simp add: lookup_interface_def)
next
  case (Exits n r1)
  with match_interfaces_length [of env k ident ins "[]" "interfaces r" False r]
  show ?thesis by (simp add: lookup_interface_def)
qed

lemma domain_ids_length:
  "length (geom_domains (geom (final_state (domain_ids env geometry k ids r)))) =
     length (geom_domains (geom r))"
proof (induction ids arbitrary: r)
  case Nil
  show ?case by simp
next
  case (Cons ident ids)
  have step: "length (geom_domains (geom (final_state
          (andthen (lookup_interface env k n ins r) (\<lambda>_ r1. domain_ids env geometry k ids r1))))) =
        length (geom_domains (geom r))" for n ins
    using lookup_interface_length [of env k n ins r]
    by (cases "lookup_interface env k n ins r") (simp_all add: Cons)
  show ?case
    by (simp add: step)
qed

lemma read_domain_length:
  "length (geom_domains (geom (final_state (read_domain env geometry k x r)))) =
     length (geom_domains (geom r))"
  by (simp add: read_domain_def domain_ids_length split: prod.splits)

lemma for_loop_read_domain_length:
  "length (geom_domains (geom (final_state (for_loop js (read_domain env geometry) a r)))) =
     length (geom_domains (geom r))"
proof -
  have "length (geom_domains (geom (final_state (for_loop js (read_domain env geometry) a r)))) = n"
    if "length (geom_domains (geom r)) = n" for n
    by (rule for_loop_final [where P = "\<lambda>r. length (geom_domains (geom r)) = n"])
       (simp_all add: read_domain_length that)
  then show ?thesis by simp
qed

lemma read_geom_domain_abort:
  assumes "before_domain env u g geometry k = Returns () r"
    and "k < length (geom_domains (geom r))"
    and "\<not> returns (read_domain env geometry k () r)"
  shows "read_geom env u g geometry = read_domain env geometry k () r"
proof -
  obtain content where c: "geometry_files env geometry = Some content"
    using assms(1) by (cases "geometry_files env geometry") (simp_all add: before_domain_def)
  let ?r0 = "open_reader g \<lparr>buf = content, failbit = False\<rparr>"
  from assms(1) c obtain r1 r2 r3 r4 where
    1: "read_version u geometry ?r0 = Returns () r1" and
    2: "process_meshes env u (dir geometry) r1 = Returns () r2" and
    3: "process_interfaces env u geometry (dir geometry) r2 = Returns () r3" and
    4: "domains_header u geometry r3 = Returns () r4" and
    5: "for_loop [0..<k] (read_domain env geometry) () r4 = Returns () r"
    unfolding before_domain_def by (auto simp: andthen_Returns)
  have "length (geom_domains (geom r)) = length (geom_domains (geom r4))"
    using for_loop_read_domain_length [of "[0..<k]" env geometry "()" r4] by (simp add: 5)
  with assms(2) have k: "k < length (geom_domains (geom r4))" by simp
  then have "[0..<length (geom_domains (geom r4))] =
               [0..<k] @ k # [Suc k..<length (geom_domains (geom r4))]"
    by (rule upt_split)
  then have "for_loop [0..<length (geom_domains (geom r4))] (read_domain env geometry) () r4 =
               andthen (read_domain env geometry k () r)
                 (for_loop [Suc k..<length (geom_domains (geom r4))] (read_domain env geometry))"
    by (simp add: for_loop_append 5)
  also have "\<dots> = read_domain env geometry k () r"
    using assms(3) by (cases "read_domain env geometry k () r") simp_all
  finally have loop: "for_loop [0..<length (geom_domains (geom r4))] (read_domain env geometry) () r4 =
      read_domain env geometry k () r" .
  have "read_geom env u g geometry =
          andthen (read_domain env geometry k () r) (\<lambda>_ r4. analyse geometry r4)"
    by (simp add: read_geom_def c 1 2 3 process_domains_def 4 loop)
  also have "\<dots> = read_domain env geometry k () r"
    using assms(3) by (cases "read_domain env geometry k () r") simp_all
  finally show ?thesis .
qed

lemma before_ventricle_domains:
  "before_domain example_env example_uninit empty_geometry ''/data/ventricle.geom'' 0 =
     Returns () domains_reader"
  by code_simp

lemma before_open_domains:
  "before_domain open_env example_uninit empty_geometry ''/data/open.geom'' 0 =
     Returns () open_domains_reader"
  by code_simp

lemma scan_open_domains_reader:
  "scan_domain 0 open_domains_reader =
     (''Brain'', '' -1'', \<lparr>buf = unlines [''Domain Air 1''], failbit = False\<rparr>)"
  by code_simp

text \<open>
  Claim C8. When the loop over the domains has reached a domain line, and an id of the
  line, other than the word \<^verbatim>\<open>shared\<close> and not after it, is the name (without its sign)
  of no interface, the ids before it having been read, \<open>read_geom\<close> throws
  \<^verbatim>\<open>NonExistingDomain\<close> with the name of the domain read from the line and the name of
  the id. It does not return: no model is handed to the caller.
\<close>

theorem unknown_interface_reference:
  assumes "before_domain env u g geometry k = Returns () r"
    and "k < length (geom_domains (geom r))"
    and "scan_domain k r = (dname, line, s)"
    and "words line = pre @ ident # rest"
    and "''shared'' \<notin> set pre"
    and "ident \<noteq> ''shared''"
    and "domain_ids env geometry k pre (set_domain_name k dname (r\<lparr>ifs := s\<rparr>)) = Returns () r1"
    and "\<forall>i\<in>set (interfaces r1). interface_name i \<noteq> strip_sign ident"
  shows "read_geom env u g geometry = Throws (NonExistingDomain dname (strip_sign ident)) r1"
proof -
  have t: "read_domain env geometry k () r = Throws (NonExistingDomain dname (strip_sign ident)) r1"
    using assms(3,2,4,5,6,7,8) by (rule read_domain_unknown_interface)
  then have "\<not> returns (read_domain env geometry k () r)"
    by simp
  with assms(1,2) have "read_geom env u g geometry = read_domain env geometry k () r"
    by (rule read_geom_domain_abort)
  with t show ?thesis by simp
qed

theorem unknown_interface_reference_witness:
  "read_geom example_env example_uninit empty_geometry ''/data/ventricle.geom'' =
     Throws (NonExistingDomain ''Brain'' ''Ventricle'')
       (final_state (domain_ids example_env ''/data/ventricle.geom'' 0 [''-1'']
          (set_domain_name 0 ''Brain''
             (domains_reader\<lparr>ifs := \<lparr>buf = unlines [''Domain Air 1''], failbit = False\<rparr>\<rparr>))))"
proof -
  let ?r0 = "set_domain_name 0 ''Brain''
               (domains_reader\<lparr>ifs := \<lparr>buf = unlines [''Domain Air 1''], failbit = False\<rparr>\<rparr>)"
  let ?r1 = "final_state (domain_ids example_env ''/data/ventricle.geom'' 0 [''-1''] ?r0)"
  have k: "0 < length (geom_domains (geom domains_reader))"
    by (simp add: domains_reader_def)
  have s: "''shared'' \<notin> set [''-1'']" "''Ventricle'' \<noteq> ''shared''"
    by simp_all
  have d: "domain_ids example_env ''/data/ventricle.geom'' 0 [''-1''] ?r0 = Returns () ?r1"
    by code_simp
  have n: "\<forall>i\<in>set (interfaces ?r1). interface_name i \<noteq> strip_sign ''Ventricle''"
    by code_simp
  have "read_geom example_env example_uninit empty_geometry ''/data/ventricle.geom'' =
          Throws (NonExistingDomain ''Brain'' (strip_sign ''Ventricle'')) ?r1"
    using before_ventricle_domains k scan_domains_reader words_domain_line s d n
    by (rule unknown_interface_reference)
  then show ?thesis
    by (simp add: strip_sign_def)
qed

text \<open>
  Claim C1, as amended. When the loop over the domains has reached a domain line, and an
  id of the line names an interface for which \<^verbatim>\<open>check()\<close> answers false (the interfaces
  of that name before it, if any, being closed), \<open>read_geom\<close> writes "Interface ... is not
  closed" to \<^verbatim>\<open>std::cerr\<close> and ends the process with \<^verbatim>\<open>exit(1)\<close>; nothing is thrown or
  returned to the caller.
\<close>

theorem unclosed_interface_exits:
  assumes "before_domain env u g geometry k = Returns () r"
    and "k < length (geom_domains (geom r))"
    and "scan_domain k r = (dname, line, s)"
    and "words line = pre @ ident # rest"
    and "''shared'' \<notin> set pre"
    and "ident \<noteq> ''shared''"
    and "domain_ids env geometry k pre (set_domain_name k dname (r\<lparr>ifs := s\<rparr>)) = Returns () r1"
    and "interfaces r1 = before @ iit # after"
    and "interface_name iit = strip_sign ident"
    and "\<not> fst (check env iit)"
    and "\<forall>i\<in>set before. interface_name i = strip_sign ident \<longrightarrow> fst (check env i)"
  shows "\<exists>r'. read_geom env u g geometry = Exits 1 r' \<and>
              cerr r' = cerr r1 @ [InterfaceNotClosed (interface_name (snd (check env iit)))]"
proof -
  obtain r' where
    e: "read_domain env geometry k () r = Exits 1 r'" and
    c: "cerr r' = cerr r1 @ [InterfaceNotClosed (interface_name (snd (check env iit)))]"
    using read_domain_unclosed_interface [OF assms(3,4,5,6,7,8,9,10,11), of "()"] by blast
  then have "\<not> returns (read_domain env geometry k () r)"
    by simp
  with assms(1,2) have "read_geom env u g geometry = read_domain env geometry k () r"
    by (rule read_geom_domain_abort)
  with e c show ?thesis by simp
qed

theorem unclosed_interface_exits_witness:
  "\<exists>r'. read_geom open_env example_uninit empty_geometry ''/data/open.geom'' = Exits 1 r' \<and>
      cerr r' = cerr (set_domain_name 0 ''Brain''
                  (open_domains_reader\<lparr>ifs := \<lparr>buf = unlines [''Domain Air 1''], failbit = False\<rparr>\<rparr>)) @
                [InterfaceNotClosed (interface_name (snd (check open_env
                   \<lparr>interface_name = ''1'', oriented_meshes = [(0, True)], interface_outermost = False\<rparr>)))]"
proof -
  let ?r0 = "set_domain_name 0 ''Brain''
               (open_domains_reader\<lparr>ifs := \<lparr>buf = unlines [''Domain Air 1''], failbit = False\<rparr>\<rparr>)"
  let ?iit = "\<lparr>interface_name = ''1'', oriented_meshes = [(0, True)], interface_outermost = False\<rparr>"
  have k: "0 < length (geom_domains (geom open_domains_reader))"
    by (simp add: open_domains_reader_def)
  have w: "words '' -1'' = [] @ ''-1'' # []"
    by code_simp
  have d: "domain_ids open_env ''/data/open.geom'' 0 [] ?r0 = Returns () ?r0"
    by simp
  have i: "interfaces ?r0 = [] @ ?iit # []"
    by (simp add: open_domains_reader_def)
  have n: "interface_name ?iit = strip_sign ''-1''"
    by (simp add: strip_sign_def)
  have c: "\<not> fst (check open_env ?iit)"
    by (simp add: open_env_def)
  show ?thesis
    by (rule unclosed_interface_exits [OF before_open_domains k scan_open_domains_reader w _ _ d i n c])
       simp_all
qed

text \<open>
  The claim C1 as stated fails: on \<open>open_geom\<close>, where the surface of the interface is
  not closed, \<open>read_geom\<close> ends the process with status 1 and throws nothing.
\<close>

theorem unclosed_interface_terminates_process:
  "case read_geom open_env example_uninit empty_geometry ''/data/open.geom'' of
     Exits n r \<Rightarrow> n = 1 \<and> cerr r = [DeprecatedGeometryFile ''/data/open.geom'', InterfaceNotClosed ''1'']
   | Returns x r \<Rightarrow> False
   | Throws e r \<Rightarrow> False"
  by code_simp

subsection \<open>The destination after a failure\<close>


lemma read_future_version:
  "read_version example_uninit ''/data/future.geom''
     (open_reader empty_geometry \<lparr>buf = future_geom, failbit = False\<rparr>) =
   Throws (WrongFileFormat ''/data/future.geom'')
     \<lparr>ifs = \<lparr>buf = unlines ['''', ''Interfaces 0'', ''Domains 0''], failbit = False\<rparr>,
      geom = empty_geometry, cerr = [VersionNotAvailable], interfaces = []\<rparr>"
  by code_simp



subsection \<open>The section of the meshes\<close>

text \<open>
  Claim C5 does not hold of the code. \<open>vtp_geom\<close> follows the grammar, with the form
  \<^verbatim>\<open>MeshFile\<close>. After the path the reader goes on into the code of the form \<^verbatim>\<open>Meshes\<close>:
  it reads a number of meshes where the file has the word \<^verbatim>\<open>Interfaces\<close>, which sets
  the fail bit, imports an empty list of meshes over those of the VTK/vtp file, and
  throws \<^verbatim>\<open>WrongFileFormat\<close> at the test of line 207.
\<close>

theorem meshfile_falls_through:
  "read_geom example_env example_uninit empty_geometry ''/data/vtp.geom'' =
     Throws (WrongFileFormat ''/data/vtp.geom'')
       \<lparr>ifs = \<lparr>buf = unlines [''Interfaces 2'', ''Interface Skull: Skull'', ''Interface Cortex: +Cortex'',
                               ''Domains 3'', ''Domain Brain: -Cortex'', ''Domain Bone: -Skull +Cortex'',
                               ''Domain Air: +Skull''],
               failbit = True\<rparr>,
        geom = \<lparr>version_id = VERSION11, geom_meshes = [], geom_domains = [], geom_is_nested = False\<rparr>,
        cerr = [], interfaces = []\<rparr>"
  by code_simp

subsection \<open>What the line of a domain keeps\<close>

lemma for_loop_final_set:
  assumes "\<And>i a r. i \<in> set js \<Longrightarrow> P r \<Longrightarrow> P (final_state (body i a r))" and "P r"
  shows "P (final_state (for_loop js body a r))"
  using assms
proof (induction js arbitrary: a r)
  case Nil
  then show ?case by simp
next
  case (Cons j js)
  show ?case
  proof (cases "body j a r")
    case (Returns b r1)
    have "P r1" using Cons.prems(1) [of j r a] Cons.prems(2) Returns by simp
    then have "P (final_state (for_loop js body b r1))"
      by (intro Cons.IH) (use Cons.prems(1) in auto)
    with Returns show ?thesis by simp
  next
    case (Throws e r1)
    then show ?thesis using Cons.prems(1) [of j r a] Cons.prems(2) by simp
  next
    case (Exits n r1)
    then show ?thesis using Cons.prems(1) [of j r a] Cons.prems(2) by simp
  qed
qed

lemma kept_refl [simp]: "kept k r r"
  by (simp add: kept_def)

lemma kept_trans: "kept k r r1 \<Longrightarrow> kept k r1 r2 \<Longrightarrow> kept k r r2"
  by (simp add: kept_def)

lemma kept_fields [simp]:
  "kept k r (r'\<lparr>ifs := s\<rparr>) = kept k r r'"
  "kept k r (r'\<lparr>cerr := c\<rparr>) = kept k r r'"
  "kept k r (r'\<lparr>interfaces := is\<rparr>) = kept k r r'"
  by (simp_all add: kept_def)

lemma kept_push_back_halfspace: "kept k r (push_back_halfspace k hs r)"
  by (simp add: kept_def push_back_halfspace_def)

lemma kept_set_domain_name: "kept k r (set_domain_name k n r)"
  by (simp add: kept_def set_domain_name_def)

lemma match_interfaces_kept:
  "kept k r (final_state (match_interfaces env k ident ins visited rest found r))"
proof (induction rest arbitrary: visited found r)
  case Nil
  show ?case by simp
next
  case (Cons iit rest)
  obtain closed iit1 where c: "check env iit = (closed, iit1)"
    by (cases "check env iit")
  show ?case
  proof (cases "interface_name iit = ident \<and> closed")
    case True
    have "kept k r (final_state (match_interfaces env k ident ins (visited @ [iit1]) rest True
            (push_back_halfspace k (iit1, ins) r)))"
      by (rule kept_trans [OF kept_push_back_halfspace Cons])
    with True c show ?thesis by simp
  next
    case False
    with c show ?thesis by (cases closed) (simp_all add: Cons)
  qed
qed

lemma lookup_interface_kept:
  "kept k r (final_state (lookup_interface env k ident ins r))"
  using match_interfaces_kept [of k r env ident ins "[]" "interfaces r" False]
  by (cases "match_interfaces env k ident ins [] (interfaces r) False r")
     (simp_all add: lookup_interface_def)

lemma domain_ids_kept:
  "kept k r (final_state (domain_ids env geometry k ids r))"
proof (induction ids arbitrary: r)
  case Nil
  show ?case by simp
next
  case (Cons ident ids)
  have step: "kept k r (final_state
          (andthen (lookup_interface env k n ins r) (\<lambda>_ r1. domain_ids env geometry k ids r1)))" for n ins
    using lookup_interface_kept [of k r env n ins]
    by (cases "lookup_interface env k n ins r") (auto intro: kept_trans Cons)
  show ?case
    by (simp add: step)
qed

lemma read_domain_kept:
  "kept k r (final_state (read_domain env geometry k x r))"
proof -
  obtain dname line s where sc: "scan_domain k r = (dname, line, s)"
    by (cases "scan_domain k r")
  have "kept k r (set_domain_name k dname (r\<lparr>ifs := s\<rparr>))"
    by (simp add: kept_def set_domain_name_def)
  then show ?thesis
    unfolding read_domain_def sc
    by (auto intro: kept_trans domain_ids_kept)
qed

subsection \<open>The half-spaces that the line of a domain gives\<close>

lemma kept_length: "kept k r r' \<Longrightarrow> length (geom_domains (geom r')) = length (geom_domains (geom r))"
  by (simp add: kept_def)

lemma kept_other: "kept k r r' \<Longrightarrow> j \<noteq> k \<Longrightarrow> geom_domains (geom r') ! j = geom_domains (geom r) ! j"
  by (simp add: kept_def)

lemma push_back_halfspace_outermost:
  "k < length (geom_domains (geom r)) \<Longrightarrow>
   outermost (geom_domains (geom (push_back_halfspace k hs r)) ! k) = outermost (geom_domains (geom r) ! k)"
  by (simp add: push_back_halfspace_def)

lemma match_interfaces_exact:
  assumes "match_interfaces env k nm ins visited rest found r = Returns found' r'"
    and "k < length (geom_domains (geom r))"
  shows "halfspaces (geom_domains (geom r') ! k) =
           halfspaces (geom_domains (geom r) ! k) @
           map (\<lambda>i. (snd (check env i), ins)) (filter (\<lambda>i. interface_name i = nm) rest) \<and>
         interfaces r' = visited @ map (\<lambda>i. if interface_name i = nm then snd (check env i) else i) rest \<and>
         domain_name (geom_domains (geom r') ! k) = domain_name (geom_domains (geom r) ! k) \<and>
         outermost (geom_domains (geom r') ! k) = outermost (geom_domains (geom r) ! k)"
  using assms
proof (induction rest arbitrary: visited found r)
  case Nil
  then show ?case by auto
next
  case (Cons iit rest)
  show ?case
  proof (cases "interface_name iit = nm")
    case False
    with Cons.prems have "match_interfaces env k nm ins (visited @ [iit]) rest found r = Returns found' r'"
      by simp
    from Cons.IH [OF this Cons.prems(2)] False show ?thesis by simp
  next
    case True
    obtain closed iit1 where c: "check env iit = (closed, iit1)"
      by (cases "check env iit")
    with True Cons.prems(1) have closed: closed
      by (cases closed) simp_all
    let ?r1 = "push_back_halfspace k (iit1, ins) r"
    have m: "match_interfaces env k nm ins (visited @ [iit1]) rest True ?r1 = Returns found' r'"
      using True c closed Cons.prems(1) by simp
    have k: "k < length (geom_domains (geom ?r1))"
      using Cons.prems(2) by simp
    from Cons.IH [OF m k] True c
      push_back_halfspace_nth [OF Cons.prems(2)] push_back_halfspace_outermost [OF Cons.prems(2)]
    show ?thesis by simp
  qed
qed

lemma lookup_interface_exact:
  assumes "lookup_interface env k (strip_sign ident) (leading_minus ident) r = Returns x r'"
    and "k < length (geom_domains (geom r))"
  shows "halfspaces (geom_domains (geom r') ! k) =
           halfspaces (geom_domains (geom r) ! k) @ referenced env ident (interfaces r) \<and>
         interfaces r' = checked env ident (interfaces r) \<and>
         domain_name (geom_domains (geom r') ! k) = domain_name (geom_domains (geom r) ! k) \<and>
         outermost (geom_domains (geom r') ! k) = outermost (geom_domains (geom r) ! k)"
proof -
  from assms(1) obtain found r1 where
    m: "match_interfaces env k (strip_sign ident) (leading_minus ident) [] (interfaces r) False r =
          Returns found r1" and
    f: "(if \<not> found then Throws (NonExistingDomain (domain_name (geom_domains (geom r1) ! k)) (strip_sign ident)) r1
         else Returns () r1) = Returns x r'"
    unfolding lookup_interface_def by (auto simp: andthen_Returns)
  from f have "r1 = r'"
    by (auto split: if_splits)
  with match_interfaces_exact [OF m assms(2)] show ?thesis
    by (simp add: referenced_def checked_def)
qed

lemma domain_ids_exact:
  assumes "domain_ids env geometry k ids r = Returns x r'"
    and "k < length (geom_domains (geom r))"
  shows "halfspaces (geom_domains (geom r') ! k) =
           halfspaces (geom_domains (geom r) ! k) @ domain_halfspaces env ids (interfaces r) \<and>
         domain_name (geom_domains (geom r') ! k) = domain_name (geom_domains (geom r) ! k) \<and>
         outermost (geom_domains (geom r') ! k) = outermost (geom_domains (geom r) ! k)"
  using assms
proof (induction ids arbitrary: r)
  case Nil
  then show ?case by simp
next
  case (Cons ident ids)
  show ?case
  proof (cases "ident = ''shared''")
    case True
    with Cons.prems(1) have "geom r' = geom r"
      by auto
    with True show ?thesis by simp
  next
    case False
    from Cons.prems(1) obtain y r1 where
      l: "lookup_interface env k (strip_sign ident) (leading_minus ident) r = Returns y r1" and
      d: "domain_ids env geometry k ids r1 = Returns x r'"
      unfolding domain_ids_step [OF False] by (auto simp: andthen_Returns)
    have "kept k r r1"
      using lookup_interface_kept [of k r env "strip_sign ident" "leading_minus ident"] l by simp
    then have k1: "k < length (geom_domains (geom r1))"
      using Cons.prems(2) by (simp add: kept_def)
    from Cons.IH [OF d k1] lookup_interface_exact [OF l Cons.prems(2)] False
    show ?thesis by simp
  qed
qed

lemma set_domain_name_nth:
  "k < length (geom_domains (geom r)) \<Longrightarrow>
     halfspaces (geom_domains (geom (set_domain_name k n r)) ! k) = halfspaces (geom_domains (geom r) ! k) \<and>
     outermost (geom_domains (geom (set_domain_name k n r)) ! k) = outermost (geom_domains (geom r) ! k)"
  by (simp add: set_domain_name_def)

lemma read_domain_exact:
  assumes "scan_domain k r = (dname, line, s)"
    and "k < length (geom_domains (geom r))"
    and "read_domain env geometry k x r = Returns () r'"
  shows "halfspaces (geom_domains (geom r') ! k) =
           halfspaces (geom_domains (geom r) ! k) @ domain_halfspaces env (words line) (interfaces r)"
    and "domain_name (geom_domains (geom r') ! k) = dname"
    and "outermost (geom_domains (geom r') ! k) = outermost (geom_domains (geom r) ! k)"
proof -
  let ?r0 = "set_domain_name k dname (r\<lparr>ifs := s\<rparr>)"
  have d: "domain_ids env geometry k (words line) ?r0 = Returns () r'"
    using assms(1,3) by (simp add: read_domain_def)
  have k0: "k < length (geom_domains (geom ?r0))"
    using assms(2) by simp
  have k1: "k < length (geom_domains (geom (r\<lparr>ifs := s\<rparr>)))"
    using assms(2) by simp
  note e = domain_ids_exact [OF d k0] and n = set_domain_name_nth [OF k1, of dname]
  show "halfspaces (geom_domains (geom r') ! k) =
           halfspaces (geom_domains (geom r) ! k) @ domain_halfspaces env (words line) (interfaces r)"
    using e n by simp
  show "domain_name (geom_domains (geom r') ! k) = dname"
    using e k1 by simp
  show "outermost (geom_domains (geom r') ! k) = outermost (geom_domains (geom r) ! k)"
    using e n by simp
qed

subsection \<open>The function from a domain line on\<close>

lemma read_geom_from_domain:
  assumes "before_domain env u g geometry k = Returns () r"
    and "k \<le> length (geom_domains (geom r))"
  shows "read_geom env u g geometry =
           andthen (for_loop [k..<length (geom_domains (geom r))] (read_domain env geometry) () r)
             (\<lambda>_. analyse geometry)"
proof -
  obtain content where c: "geometry_files env geometry = Some content"
    using assms(1) by (cases "geometry_files env geometry") (simp_all add: before_domain_def)
  let ?r0 = "open_reader g \<lparr>buf = content, failbit = False\<rparr>"
  from assms(1) c obtain r1 r2 r3 r4 where
    1: "read_version u geometry ?r0 = Returns () r1" and
    2: "process_meshes env u (dir geometry) r1 = Returns () r2" and
    3: "process_interfaces env u geometry (dir geometry) r2 = Returns () r3" and
    4: "domains_header u geometry r3 = Returns () r4" and
    5: "for_loop [0..<k] (read_domain env geometry) () r4 = Returns () r"
    unfolding before_domain_def by (auto simp: andthen_Returns)
  have n: "length (geom_domains (geom r)) = length (geom_domains (geom r4))"
    using for_loop_read_domain_length [of "[0..<k]" env geometry "()" r4] by (simp add: 5)
  obtain m where m: "length (geom_domains (geom r4)) = k + m"
    using assms(2) n le_Suc_ex by metis
  have "[0..<k + m] = [0..<k] @ [k..<k + m]"
    by (rule upt_add_eq_append) simp
  then have "for_loop [0..<length (geom_domains (geom r4))] (read_domain env geometry) () r4 =
               for_loop [k..<length (geom_domains (geom r))] (read_domain env geometry) () r"
    by (simp add: m n for_loop_append 5)
  then show ?thesis
    by (simp add: read_geom_def c 1 2 3 process_domains_def 4)
qed

lemma read_geom_after_domain:
  assumes "read_geom env u g geometry = Returns () r"
    and "before_domain env u g geometry k = Returns () rk"
    and "k < length (geom_domains (geom rk))"
  obtains rk1 rn where "read_domain env geometry k () rk = Returns () rk1"
    and "geom_domains (geom rn) ! k = geom_domains (geom rk1) ! k"
    and "length (geom_domains (geom rn)) = length (geom_domains (geom rk))"
    and "\<forall>j<k. geom_domains (geom rn) ! j = geom_domains (geom rk) ! j"
    and "analyse geometry rn = Returns () r"
proof -
  let ?n = "length (geom_domains (geom rk))"
  have "read_geom env u g geometry =
          andthen (for_loop [k..<?n] (read_domain env geometry) () rk) (\<lambda>_. analyse geometry)"
    using assms(2,3) by (intro read_geom_from_domain) simp_all
  moreover have "[k..<?n] = k # [Suc k..<?n]"
    using assms(3) by (rule upt_conv_Cons)
  ultimately have "andthen (andthen (read_domain env geometry k () rk)
                     (for_loop [Suc k..<?n] (read_domain env geometry))) (\<lambda>_. analyse geometry) =
                   Returns () r"
    using assms(1) by simp
  then obtain x rn where
    ab: "andthen (read_domain env geometry k () rk)
           (for_loop [Suc k..<?n] (read_domain env geometry)) = Returns x rn" and
    c: "analyse geometry rn = Returns () r"
    unfolding andthen_Returns [of _ "\<lambda>_. analyse geometry"] by blast
  from ab obtain y rk1 where
    a: "read_domain env geometry k y rk = Returns () rk1" and
    b: "for_loop [Suc k..<?n] (read_domain env geometry) () rk1 = Returns () rn"
    unfolding andthen_Returns by auto
  have k1: "kept k rk rk1"
    using read_domain_kept [of k rk env geometry "()"] a by simp
  let ?P = "\<lambda>r'. length (geom_domains (geom r')) = ?n \<and>
                  (\<forall>j\<le>k. geom_domains (geom r') ! j = geom_domains (geom rk1) ! j)"
  have "?P (final_state (for_loop [Suc k..<?n] (read_domain env geometry) () rk1))"
  proof (rule for_loop_final_set [where P = ?P])
    show "?P rk1" using k1 by (simp add: kept_def)
    show "?P (final_state (read_domain env geometry i a r'))"
      if "i \<in> set [Suc k..<?n]" and "?P r'" for i a r'
      using read_domain_kept [of i r' env geometry a] that by (auto simp: kept_def)
  qed
  then have p: "?P rn" by (simp add: b)
  have "\<forall>j<k. geom_domains (geom rn) ! j = geom_domains (geom rk) ! j"
    using p k1 by (auto simp: kept_def)
  with a p c show ?thesis
    by (intro that [of rk1 rn]) auto
qed

subsection \<open>A destination without domains\<close>

lemma resize_Nil: "resize n d [] = replicate n d"
  by (simp add: resize_def)

lemma before_domain_fresh:
  assumes "before_domain env u g geometry k = Returns () rk"
    and "geom_domains g = []"
    and "k < length (geom_domains (geom rk))"
  shows "geom_domains (geom rk) ! k = Domain_default"
proof -
  let ?K = "\<lambda>(v :: VersionId) ds. ds = ([] :: Domain list)"
  obtain content where c: "geometry_files env geometry = Some content"
    using assms(1) by (cases "geometry_files env geometry") (simp_all add: before_domain_def)
  let ?r0 = "open_reader g \<lparr>buf = content, failbit = False\<rparr>"
  from assms(1) c obtain r1 r2 r3 r4 where
    1: "read_version u geometry ?r0 = Returns () r1" and
    2: "process_meshes env u (dir geometry) r1 = Returns () r2" and
    3: "process_interfaces env u geometry (dir geometry) r2 = Returns () r3" and
    4: "domains_header u geometry r3 = Returns () r4" and
    5: "for_loop [0..<k] (read_domain env geometry) () r4 = Returns () rk"
    unfolding before_domain_def by (auto simp: andthen_Returns)
  have "frame ?K ?r0"
    using assms(2) by (simp add: frame_def open_reader_def)
  then have "frame ?K (final_state (read_version u geometry ?r0))"
    by (rule read_version_frame)
  then have "frame ?K r1" by (simp add: 1)
  then have "frame ?K (final_state (process_meshes env u (dir geometry) r1))"
    by (rule process_meshes_frame)
  then have "frame ?K r2" by (simp add: 2)
  then have "frame ?K (final_state (process_interfaces env u geometry (dir geometry) r2))"
    by (rule process_interfaces_frame)
  then have "frame ?K r3" by (simp add: 3)
  then have e: "geom_domains (geom r3) = []" by (simp add: frame_def)
  obtain n where r4: "geom_domains (geom r4) = replicate n Domain_default"
    using 4 e by (auto simp: domains_header_def Let_def resize_Nil split: prod.splits if_splits)
  let ?P = "\<lambda>r'. length (geom_domains (geom r')) = n \<and> geom_domains (geom r') ! k = Domain_default"
  have n: "length (geom_domains (geom rk)) = n"
    using for_loop_read_domain_length [of "[0..<k]" env geometry "()" r4] by (simp add: 5 r4)
  have "?P (final_state (for_loop [0..<k] (read_domain env geometry) () r4))"
  proof (rule for_loop_final_set [where P = ?P])
    show "?P r4" using assms(3) n by (simp add: r4)
    show "?P (final_state (read_domain env geometry i a r'))"
      if "i \<in> set [0..<k]" and "?P r'" for i a r'
      using read_domain_kept [of i r' env geometry a] that by (auto simp: kept_def)
  qed
  then show ?thesis by (simp add: 5)
qed

lemma read_geom_analysis:
  "read_geom env u g geometry = andthen (before_analysis env u g geometry) (\<lambda>_. analyse geometry)"
  by (cases "geometry_files env geometry")
     (simp_all add: read_geom_def before_analysis_def andthen_assoc)

lemma before_analysis_flags:
  assumes "before_analysis env u g geometry = Returns () r4" and "flags Not (geom_domains g)"
  shows "flags Not (geom_domains (geom r4))"
proof -
  let ?K = "\<lambda>v ds. True \<and> flags Not ds"
  obtain content where c: "geometry_files env geometry = Some content"
    using assms(1) by (cases "geometry_files env geometry") (simp_all add: before_analysis_def)
  let ?r0 = "open_reader g \<lparr>buf = content, failbit = False\<rparr>"
  from assms(1) c obtain r1 r2 r3 where
    1: "read_version u geometry ?r0 = Returns () r1" and
    2: "process_meshes env u (dir geometry) r1 = Returns () r2" and
    3: "process_interfaces env u geometry (dir geometry) r2 = Returns () r3" and
    4: "process_domains env u geometry r3 = Returns () r4"
    unfolding before_analysis_def by (auto simp: andthen_Returns)
  have "frame ?K ?r0"
    using assms(2) by (simp add: frame_def open_reader_def)
  then have "frame ?K (final_state (read_version u geometry ?r0))"
    using read_version_frame [of "flags Not" ?r0] by (simp add: frame_def)
  then have "frame ?K r1" by (simp add: 1)
  then have "frame ?K (final_state (process_meshes env u (dir geometry) r1))"
    by (rule process_meshes_frame)
  then have "frame ?K r2" by (simp add: 2)
  then have "frame ?K (final_state (process_interfaces env u geometry (dir geometry) r2))"
    by (rule process_interfaces_frame)
  then have "frame ?K r3" by (simp add: 3)
  then have "frame ?K (final_state (process_domains env u geometry r3))"
    by (rule process_domains_frame) simp
  then have "frame ?K r4" by (simp add: 4)
  then show ?thesis by (simp add: frame_def)
qed

subsection \<open>A domain without half-spaces\<close>

text \<open>
  Claim C10. In a parse that returns, into a destination without domains, a domain whose
  line has no id, or has the word \<^verbatim>\<open>shared\<close> first, has no half-space in the model.
  When every domain before it has a half-space with \<open>inside = true\<close>, it is the first
  domain that passes the test of line 335 to 339, and the model has it marked as the
  outermost domain.
\<close>

theorem empty_domain_is_outermost:
  assumes "read_geom env u g geometry = Returns () r"
    and "geom_domains g = []"
    and "before_domain env u g geometry k = Returns () rk"
    and "k < length (geom_domains (geom rk))"
    and "scan_domain k rk = (dname, line, s)"
    and "words line = [] \<or> hd (words line) = ''shared''"
    and "\<forall>j<k. \<exists>hit\<in>set (halfspaces (geom_domains (geom r) ! j)). inside hit"
  shows "domain_name (geom_domains (geom r) ! k) = dname \<and>
         halfspaces (geom_domains (geom r) ! k) = [] \<and>
         outermost (geom_domains (geom r) ! k)"
proof -
  from assms(1,3,4) obtain rk1 rn where
    rd: "read_domain env geometry k () rk = Returns () rk1" and
    same: "geom_domains (geom rn) ! k = geom_domains (geom rk1) ! k" and
    len: "length (geom_domains (geom rn)) = length (geom_domains (geom rk))" and
    an: "analyse geometry rn = Returns () r"
    by (rule read_geom_after_domain)
  have none: "domain_halfspaces env (words line) ifaces = []" for ifaces
    using assms(6) by (cases "words line") auto
  have fresh: "halfspaces (geom_domains (geom rk) ! k) = []"
    using before_domain_fresh [OF assms(3,2,4)] by (simp add: Domain_default_def)
  have hs: "halfspaces (geom_domains (geom rn) ! k) = []"
    using read_domain_exact(1) [OF assms(5,4) rd] by (simp add: same none fresh)
  have nm: "domain_name (geom_domains (geom rn) ! k) = dname"
    using read_domain_exact(2) [OF assms(5,4) rd] by (simp add: same)
  let ?ds = "geom_domains (geom rn)"
  have k: "k < length ?ds" using assms(4) len by simp
  have o: "outer (?ds ! k)" using hs by (simp add: outer_def)
  have ds': "geom_domains (geom r) = snd (search_outermost None 0 ?ds)"
    using an by (rule analyse_Returns)
  show ?thesis
  proof (cases rule: search_outermost_cases [of ?ds None 0])
    case none
    with o k show ?thesis by (auto simp: set_conv_nth)
  next
    case (first pre d post)
    have eq: "geom_domains (geom r) = pre @ mark_outermost d # post"
      using ds' first(4) by simp
    have "\<not> length pre < k"
    proof
      assume l: "length pre < k"
      then obtain hit where "hit \<in> set (halfspaces (geom_domains (geom r) ! length pre))" "inside hit"
        using assms(7) by blast
      then show False
        using marked_halfspaces [OF first(3), of hit] by (simp add: eq)
    qed
    moreover have "\<not> k < length pre"
    proof
      assume "k < length pre"
      then have "?ds ! k \<in> set pre"
        by (simp add: first(1) nth_append)
      with first(2) o show False by blast
    qed
    ultimately have kp: "k = length pre" by simp
    then have d: "?ds ! k = d" by (simp add: first(1))
    have "geom_domains (geom r) ! k = mark_outermost d"
      by (simp add: eq kp)
    with d hs nm show ?thesis by simp
  qed
qed

lemma read_shared_geom:
  "read_geom example_env example_uninit empty_geometry ''/data/shared.geom'' = Returns () shared_reader"
  by code_simp

lemma before_shared_domain:
  "before_domain example_env example_uninit empty_geometry ''/data/shared.geom'' 1 =
     Returns () shared_domains_reader"
  by code_simp

lemma scan_shared_domain:
  "scan_domain 1 shared_domains_reader = (''Air'', '' shared'', \<lparr>buf = [], failbit = False\<rparr>)"
  by code_simp

lemma words_shared: "words '' shared'' = [''shared'']"
  by code_simp

theorem empty_domain_is_outermost_witness:
  "read_geom example_env example_uninit empty_geometry ''/data/shared.geom'' = Returns () shared_reader \<and>
   before_domain example_env example_uninit empty_geometry ''/data/shared.geom'' 1 =
     Returns () shared_domains_reader \<and>
   scan_domain 1 shared_domains_reader = (''Air'', '' shared'', \<lparr>buf = [], failbit = False\<rparr>) \<and>
   words '' shared'' = [''shared''] \<and>
   list_ex inside (halfspaces (geom_domains (geom shared_reader) ! 0)) \<and>
   domain_name (geom_domains (geom shared_reader) ! 1) = ''Air'' \<and>
   halfspaces (geom_domains (geom shared_reader) ! 1) = [] \<and>
   outermost (geom_domains (geom shared_reader) ! 1)"
proof -
  have 2: "geom_domains empty_geometry = []"
    by (simp add: empty_geometry_def)
  have 4: "1 < length (geom_domains (geom shared_domains_reader))"
    by (simp add: shared_domains_reader_def)
  have 6: "words '' shared'' = [] \<or> hd (words '' shared'') = ''shared''"
    by (simp add: words_shared)
  have i: "list_ex inside (halfspaces (geom_domains (geom shared_reader) ! 0))"
    by (simp add: shared_reader_def inside_def)
  then have 7: "\<forall>j<1. \<exists>hit\<in>set (halfspaces (geom_domains (geom shared_reader) ! j)). inside hit"
    by (simp add: list_ex_iff)
  note t = empty_domain_is_outermost [OF read_shared_geom 2 before_shared_domain 4 scan_shared_domain 6 7]
  show ?thesis
    by (intro conjI read_shared_geom before_shared_domain scan_shared_domain words_shared i
        t [THEN conjunct1] t [THEN conjunct2, THEN conjunct1] t [THEN conjunct2, THEN conjunct2])
qed

subsection \<open>No outermost domain\<close>

lemma no_outer_marked:
  assumes "outer d"
  shows "\<not> list_ex inside (halfspaces (mark_outermost d))"
proof
  assume "list_ex inside (halfspaces (mark_outermost d))"
  then obtain hit where "hit \<in> set (halfspaces (mark_outermost d))" "inside hit"
    unfolding list_ex_iff by blast
  with marked_halfspaces [OF assms] show False by blast
qed


lemma read_no_outermost_geom:
  "read_geom example_env example_uninit empty_geometry ''/data/no_outermost.geom'' =
     Returns () no_outermost_reader"
  by code_simp

lemma no_outermost_sizes:
  "length (triples (geom_domains (geom no_outermost_reader))) < 2 ^ 32"
  "list_all (\<lambda>d. length (halfspaces d) < 2 ^ 32) (geom_domains (geom no_outermost_reader))"
  by (simp_all add: no_outermost_reader_def triples_def interface_def)


end
